theory Spec2Isabelle
  imports Complex_Main "HOL-Library.Multiset" "HOL-Library.Char_ord" "HOL-Library.List_Lexorder"
begin

section \<open>Numeric conventions shared by the embedded functions\<close>

text \<open>
  The Python sources compute on numpy float64 arrays.  The embedding uses exact
  real numbers for every finite value; the one special value whose treatment
  the sources spell out (NaN, produced by averaging an empty array and removed
  by \<^verbatim>\<open>np.nan_to_num\<close>) is modelled explicitly where it can arise.
  A Python exception is a value of type \<open>py_error\<close> returned on the left of a sum.
\<close>

datatype py_error =
    StopIteration
  | KeyError
  | ValueError
  | IndexError
  | TypeError
  | AssertionError
  | OtherError

type_synonym matrix = "real list list"

text \<open>\<^verbatim>\<open>np.zeros(d)\<close> and \<^verbatim>\<open>np.zeros([n, d])\<close>.\<close>

definition zeros :: "nat \<Rightarrow> real list" where
  "zeros d = replicate d 0"

definition zeros2 :: "nat \<Rightarrow> nat \<Rightarrow> matrix" where
  "zeros2 n d = replicate n (zeros d)"

text \<open>The number of columns of a matrix, \<^verbatim>\<open>X.shape[1]\<close>.\<close>

definition ncols :: "'a list list \<Rightarrow> nat" where
  "ncols A = (case A of [] \<Rightarrow> 0 | r # _ \<Rightarrow> length r)"

text \<open>
  \<^verbatim>\<open>sklearn.preprocessing.Normalizer(norm='l2').fit_transform(X)\<close>.  The row
  scaling \<open>Normalizer_l2\<close>: every row is divided by its Euclidean norm; a row
  whose norm is zero is divided by one instead, that is, left as it is.
  Before it, sklearn validates the input and raises ValueError for a matrix
  with no row or with no column; \<open>Normalizer_fit_transform\<close> is the call with
  this validation, used where the matrix can be empty.
\<close>

definition l2_norm :: "real list \<Rightarrow> real" where
  "l2_norm v = sqrt (sum_list (map (\<lambda>x. x * x) v))"

definition normalize_row :: "real list \<Rightarrow> real list" where
  "normalize_row v = (let n = l2_norm v in if n = 0 then v else map (\<lambda>x. x / n) v)"

definition Normalizer_l2 :: "matrix \<Rightarrow> matrix" where
  "Normalizer_l2 X = map normalize_row X"

definition Normalizer_fit_transform :: "matrix \<Rightarrow> py_error + matrix" where
  "Normalizer_fit_transform X =
     (if X = [] \<or> ncols X = 0 then Inl ValueError else Inr (Normalizer_l2 X))"

section \<open>\<^verbatim>\<open>term_vectors_from_dict\<close> (is\_constructs.py, lines 381--403)\<close>

text \<open>
  A Python dict keeps insertion order, so the vector dictionary is an
  association list (keys distinct); \<^verbatim>\<open>vector_dict[term]\<close> is \<open>map_of\<close> and raises
  KeyError on a miss.  \<^verbatim>\<open>next(iter(vector_dict.values()))\<close> is the first value and
  raises StopIteration on the empty dict.
\<close>

type_synonym vector_dict = "(string \<times> real list) list"

definition first_value :: "vector_dict \<Rightarrow> py_error + real list" where
  "first_value vd = (case vd of [] \<Rightarrow> Inl StopIteration | (k, v) # _ \<Rightarrow> Inr v)"

text \<open>
  \<^verbatim>\<open>term_vectors[i] = v\<close> on a row of width \<open>d\<close>: numpy copies a sequence of length
  \<open>d\<close>, broadcasts a sequence of length one, and raises ValueError otherwise.
  The index \<open>i\<close> is always in range in the loop below.
\<close>

definition set_row :: "matrix \<Rightarrow> nat \<Rightarrow> real list \<Rightarrow> py_error + matrix" where
  "set_row M i v =
     (if i < length M then
        (let d = length (M ! i) in
         if length v = d then Inr (M[i := v])
         else if length v = 1 then Inr (M[i := replicate d (hd v)])
         else Inl ValueError)
      else Inl IndexError)"

text \<open>
  The loop \<^verbatim>\<open>for term in target_terms\<close>, with its state: the matrix being filled,
  the row index \<open>i\<close> and the counter \<open>ctr_oov\<close>.
\<close>

fun tvfd_loop ::
  "vector_dict \<Rightarrow> string list \<Rightarrow> matrix \<times> nat \<times> nat \<Rightarrow> py_error + (matrix \<times> nat \<times> nat)" where
  "tvfd_loop vd [] s = Inr s"
| "tvfd_loop vd (t # ts) (M, i, ctr_oov) =
     (case map_of vd t of
        Some v \<Rightarrow>
          (case set_row M i v of
             Inl e \<Rightarrow> Inl e
           | Inr M' \<Rightarrow> tvfd_loop vd ts (M', i + 1, ctr_oov))
      | None \<Rightarrow>
          (case first_value vd of
             Inl e \<Rightarrow> Inl e
           | Inr v0 \<Rightarrow>
               (case set_row M i (zeros (length v0)) of
                  Inl e \<Rightarrow> Inl e
                | Inr M' \<Rightarrow> tvfd_loop vd ts (M', i + 1, ctr_oov + 1))))"

text \<open>What the embedded functions write to standard output (diagnostic lines).\<close>

datatype message = OOV_report nat | Ctr_one_report nat | Ctr_none_report nat

text \<open>
  The function returns the matrix (a DataFrame indexed by \<^verbatim>\<open>target_terms\<close>, row
  \<open>i\<close> belonging to term \<open>i\<close>); the second component of the model's result is what
  was printed.  The counter \<^verbatim>\<open>ctr_oov\<close> is not part of the returned value.  The
  normalisation comes after the print and can raise (no target term, or
  vectors of dimension 0); what was printed before an exception is not kept in
  the model's result.
\<close>

definition term_vectors_from_dict ::
  "vector_dict \<Rightarrow> string list \<Rightarrow> bool \<Rightarrow> bool \<Rightarrow> py_error + (matrix \<times> message list)" where
  "term_vectors_from_dict vd target_terms do_normalize verbose =
     (case first_value vd of
        Inl e \<Rightarrow> Inl e
      | Inr v0 \<Rightarrow>
          (case tvfd_loop vd target_terms (zeros2 (length target_terms) (length v0), 0, 0) of
             Inl e \<Rightarrow> Inl e
           | Inr (M, i, ctr_oov) \<Rightarrow>
               (case (if do_normalize then Normalizer_fit_transform M else Inr M) of
                  Inl e \<Rightarrow> Inl e
                | Inr term_vectors \<Rightarrow>
                    Inr (term_vectors, if verbose then [OOV_report ctr_oov] else []))))"

text \<open>The dictionary's dimensionality, and the number of target terms it lacks.\<close>

definition dict_dim :: "vector_dict \<Rightarrow> nat" where
  "dict_dim vd = length (snd (hd vd))"

definition uniform_dict :: "vector_dict \<Rightarrow> bool" where
  "uniform_dict vd = list_all (\<lambda>kv. length (snd kv) = dict_dim vd) vd"

definition oov_count :: "vector_dict \<Rightarrow> string list \<Rightarrow> nat" where
  "oov_count vd ts = length (filter (\<lambda>t. map_of vd t = None) ts)"

text \<open>What one row of the result is: the stored vector, or zeros on a miss.\<close>

definition row_for :: "vector_dict \<Rightarrow> string \<Rightarrow> real list" where
  "row_for vd t = (case map_of vd t of Some v \<Rightarrow> v | None \<Rightarrow> zeros (dict_dim vd))"

section \<open>The similarity aggregators (is\_constructs.py, lines 686--736 and 775--819)\<close>

text \<open>
  A matrix cell that an aggregator writes is a float that may be NaN:
  \<^verbatim>\<open>np.average\<close> of an empty array is NaN (numpy warns and returns it, it raises
  nothing).  The similarity matrices the aggregators read are taken to hold
  finite values.
\<close>

datatype npfloat = Finite real | NaN

text \<open>\<^verbatim>\<open>np.where(column == v)[0]\<close>: the positions of \<open>v\<close> in the column, ascending.\<close>

definition np_where_eq :: "int list \<Rightarrow> int \<Rightarrow> nat list" where
  "np_where_eq col v = filter (\<lambda>k. col ! k = v) [0 ..< length col]"

text \<open>
  The double loop \<^verbatim>\<open>for i1 in ix_1: all += [(i1, i2) for i2 in ix_2]\<close>: the full
  cross-product of two index lists.
\<close>

definition index_pairs :: "nat list \<Rightarrow> nat list \<Rightarrow> (nat \<times> nat) list" where
  "index_pairs ix1 ix2 = concat (map (\<lambda>i1. map (\<lambda>i2. (i1, i2)) ix2) ix1)"

text \<open>
  \<^verbatim>\<open>similarity[(i1, i2)]\<close> on a two-dimensional array raises IndexError out of
  range; \<^verbatim>\<open>[similarity[i] for i in pairs]\<close> stops at the first error.
\<close>

definition cell :: "matrix \<Rightarrow> nat \<times> nat \<Rightarrow> py_error + real" where
  "cell S p = (if fst p < length S \<and> snd p < length (S ! fst p)
               then Inr (S ! fst p ! snd p) else Inl IndexError)"

fun lookup_all :: "matrix \<Rightarrow> (nat \<times> nat) list \<Rightarrow> py_error + real list" where
  "lookup_all S [] = Inr []"
| "lookup_all S (p # ps) =
     (case cell S p of
        Inl e \<Rightarrow> Inl e
      | Inr x \<Rightarrow> (case lookup_all S ps of Inl e \<Rightarrow> Inl e | Inr xs \<Rightarrow> Inr (x # xs)))"

definition np_average :: "real list \<Rightarrow> npfloat" where
  "np_average xs = (if xs = [] then NaN else Finite (sum_list xs / real (length xs)))"

text \<open>The slice \<^verbatim>\<open>a[-k:]\<close> for \<open>k \<ge> 1\<close>: the last \<open>k\<close> elements, all of them if there are fewer.\<close>

definition tail_slice :: "nat \<Rightarrow> 'a list \<Rightarrow> 'a list" where
  "tail_slice k xs = (if length xs \<le> k then xs else drop (length xs - k) xs)"

text \<open>
  \<^verbatim>\<open>np.average(np.sort(sub, axis=None)[-np.max([n_similarities, 2]):])\<close>.
  \<open>top_avg\<close> is its value when the slice bound is accepted.  The bound is the
  maximum of a numpy array built from two Python ints: for
  \<open>2^63 \<le> n_similarities < 2^64\<close> the array is of floats, the bound is a float
  and the slice raises TypeError; every other integer gives an integer bound
  (out-of-range bounds of a slice are clipped).
\<close>

definition top_avg :: "int \<Rightarrow> real list \<Rightarrow> npfloat" where
  "top_avg n_similarities sub =
     np_average (tail_slice (nat (max n_similarities 2)) (sort sub))"

definition top_average :: "int \<Rightarrow> real list \<Rightarrow> py_error + npfloat" where
  "top_average n_similarities sub =
     (if 2 ^ 63 \<le> n_similarities \<and> n_similarities < 2 ^ 64 then Inl TypeError
      else Inr (top_avg n_similarities sub))"

text \<open>\<^verbatim>\<open>M[i, j] = v\<close>, with \<open>i\<close> and \<open>j\<close> in range wherever the loops use it.\<close>

definition set_cell :: "'a list list \<Rightarrow> nat \<Rightarrow> nat \<Rightarrow> 'a \<Rightarrow> 'a list list" where
  "set_cell M i j v = M[i := (M ! i)[j := v]]"

text \<open>
  The index pairs visited by
  \<^verbatim>\<open>for ind_1 in range(n - 1): for ind_2 in range(ind_1 + 1, n)\<close>, in order
  (\<^verbatim>\<open>range(-1)\<close> is empty, as \<open>[0 ..< 0 - 1]\<close> is).
\<close>

definition upper_pairs :: "nat \<Rightarrow> (nat \<times> nat) list" where
  "upper_pairs n = concat (map (\<lambda>i. map (\<lambda>j. (i, j)) [i + 1 ..< n]) [0 ..< n - 1])"

subsection \<open>\<^verbatim>\<open>aggregate_construct_similarity\<close> with \<^verbatim>\<open>construct_authors=None\<close>\<close>

text \<open>
  \<open>gold_items\<close> is the column \<^verbatim>\<open>gold_items['VariableId']\<close>: entry \<open>k\<close> is the
  construct of constituent \<open>k\<close>, and \<open>k\<close> is also the constituent's row and column in
  the similarity matrix.  The body of the double loop, for the pairs still to
  visit and the matrix \<open>C\<close> filled so far:
\<close>

fun acs_loop ::
  "matrix \<Rightarrow> int list \<Rightarrow> int list \<Rightarrow> int \<Rightarrow> (nat \<times> nat) list \<Rightarrow> npfloat list list
     \<Rightarrow> py_error + npfloat list list" where
  "acs_loop S gold ids n [] C = Inr C"
| "acs_loop S gold ids n ((ind_1, ind_2) # ps) C =
     (let constit_ix_1 = np_where_eq gold (ids ! ind_1);
          constit_ix_2 = np_where_eq gold (ids ! ind_2)
      in case lookup_all S (index_pairs constit_ix_1 constit_ix_2) of
           Inl e \<Rightarrow> Inl e
         | Inr item_sim_sub \<Rightarrow>
             (case top_average n item_sim_sub of
                Inl e \<Rightarrow> Inl e
              | Inr sim_avg \<Rightarrow> acs_loop S gold ids n ps (set_cell C ind_1 ind_2 sim_avg)))"

definition nan_to_num :: "npfloat list list \<Rightarrow> matrix" where
  "nan_to_num C = map (map (\<lambda>x. case x of Finite r \<Rightarrow> r | NaN \<Rightarrow> 0)) C"

text \<open>
  The result is the matrix of the returned DataFrame; its rows and columns are
  labelled by the sorted \<^verbatim>\<open>variable_ids\<close>.  The progress lines printed under
  \<^verbatim>\<open>verbose\<close> carry no result and are left out.
\<close>

definition aggregate_construct_similarity ::
  "matrix \<Rightarrow> int list \<Rightarrow> int list \<Rightarrow> int \<Rightarrow> py_error + matrix" where
  "aggregate_construct_similarity constituent_similarity gold_items variable_ids n_similarities =
     (let ids = sort variable_ids; n = length ids
      in case acs_loop constituent_similarity gold_items ids n_similarities (upper_pairs n)
                (replicate n (replicate n (Finite 0))) of
           Inl e \<Rightarrow> Inl e
         | Inr C \<Rightarrow> Inr (nan_to_num C))"

subsection \<open>\<^verbatim>\<open>aggregate_item_similarity\<close>\<close>

text \<open>
  \<^verbatim>\<open>np.asmatrix(V) * np.asmatrix(V).T\<close> for a rectangular matrix of term vectors.
\<close>

definition dot :: "real list \<Rightarrow> real list \<Rightarrow> real" where
  "dot u v = sum_list (map2 (*) u v)"

definition gram :: "matrix \<Rightarrow> matrix" where
  "gram V = map (\<lambda>u. map (\<lambda>v. dot u v) V) V"

text \<open>\<^verbatim>\<open>np.where(row != 0)[0]\<close> and \<^verbatim>\<open>np.count_nonzero\<close>.\<close>

definition nonzero_indices :: "real list \<Rightarrow> nat list" where
  "nonzero_indices row = filter (\<lambda>k. row ! k \<noteq> 0) [0 ..< length row]"

definition count_nonzero :: "real list \<Rightarrow> nat" where
  "count_nonzero xs = length (filter (\<lambda>x. x \<noteq> 0) xs)"

text \<open>
  The expression inside the \<^verbatim>\<open>try\<close>.  Sorting, slicing with an integer bound
  and averaging a flat list of numbers raise nothing in numpy, whatever its
  length; the one exception that can leave the expression is the TypeError of
  the slice bound, which the handler for ValueError does not catch.
\<close>

definition try_top_average :: "int \<Rightarrow> real list \<Rightarrow> py_error + npfloat" where
  "try_top_average n_similarities sub = top_average n_similarities sub"

text \<open>
  The double loop with its state: the matrix and the counters \<^verbatim>\<open>ctr_one\<close> and
  \<^verbatim>\<open>ctr_none\<close>.  The \<^verbatim>\<open>except ValueError\<close> handler is the branch for
  \<open>Inl ValueError\<close>; any other exception propagates.
\<close>

fun ais_loop ::
  "matrix \<Rightarrow> matrix \<Rightarrow> int \<Rightarrow> (nat \<times> nat) list \<Rightarrow> npfloat list list \<times> nat \<times> nat
     \<Rightarrow> py_error + (npfloat list list \<times> nat \<times> nat)" where
  "ais_loop dt tsim n [] s = Inr s"
| "ais_loop dt tsim n ((ind_1, ind_2) # ps) (M, ctr_one, ctr_none) =
     (let term_indices_1 = nonzero_indices (dt ! ind_1);
          term_indices_2 = nonzero_indices (dt ! ind_2)
      in case lookup_all tsim (index_pairs term_indices_1 term_indices_2) of
           Inl e \<Rightarrow> Inl e
         | Inr term_sim_sub \<Rightarrow>
             (case try_top_average n term_sim_sub of
                Inr sim_avg \<Rightarrow>
                  ais_loop dt tsim n ps (set_cell M ind_1 ind_2 sim_avg, ctr_one, ctr_none)
              | Inl e \<Rightarrow>
                  if e = ValueError then
                    (if count_nonzero term_sim_sub \<noteq> 0 then
                       ais_loop dt tsim n ps
                         (set_cell M ind_1 ind_2 (Finite (last (sort term_sim_sub))),
                          ctr_one + 1, ctr_none)
                     else
                       ais_loop dt tsim n ps
                         (set_cell M ind_1 ind_2 (Finite 0), ctr_one, ctr_none + 1))
                  else Inl e))"

text \<open>\<^verbatim>\<open>np.add(M, M.T)\<close> followed by \<^verbatim>\<open>np.fill_diagonal(M, 1)\<close>; NaN absorbs.\<close>

definition np_add :: "npfloat \<Rightarrow> npfloat \<Rightarrow> npfloat" where
  "np_add x y = (case (x, y) of (Finite a, Finite b) \<Rightarrow> Finite (a + b) | _ \<Rightarrow> NaN)"

definition mirror_fill :: "npfloat list list \<Rightarrow> npfloat list list" where
  "mirror_fill M =
     map (\<lambda>i. map (\<lambda>j. if i = j then Finite 1 else np_add (M ! i ! j) (M ! j ! i))
                [0 ..< length M]) [0 ..< length M]"

text \<open>
  The result is the matrix of the returned DataFrame together with the two
  counter lines printed under \<^verbatim>\<open>verbose\<close> (the other progress lines are left
  out).  No \<^verbatim>\<open>nan_to_num\<close> is applied here.
\<close>

definition aggregate_item_similarity ::
  "matrix \<Rightarrow> matrix \<Rightarrow> int \<Rightarrow> bool \<Rightarrow> py_error + (npfloat list list \<times> message list)" where
  "aggregate_item_similarity dt_matrix term_vectors n_similarities verbose =
     (let term_similarity = gram term_vectors; n = length dt_matrix
      in case ais_loop dt_matrix term_similarity n_similarities (upper_pairs n)
                (replicate n (replicate n (Finite 0)), 0, 0) of
           Inl e \<Rightarrow> Inl e
         | Inr (M, ctr_one, ctr_none) \<Rightarrow>
             Inr (mirror_fill M,
                  if verbose then [Ctr_one_report ctr_one, Ctr_none_report ctr_none] else []))"

subsection \<open>Vocabulary for stating the aggregation rule\<close>

text \<open>
  The similarity matrix has a row and a column for each of the first \<open>m\<close>
  constituents.
\<close>

definition covers :: "matrix \<Rightarrow> nat \<Rightarrow> bool" where
  "covers S m = (m \<le> length S \<and> list_all (\<lambda>r. m \<le> length r) S)"

text \<open>Every row of the document-term matrix has at most one column per term vector.\<close>

definition rows_fit :: "matrix \<Rightarrow> matrix \<Rightarrow> bool" where
  "rows_fit dt V = list_all (\<lambda>row. length row \<le> length V) dt"

text \<open>
  The similarity values of the full cross-product of the constituents of the
  constructs at positions \<open>i\<close> and \<open>j\<close> of the identifier list \<open>ids\<close>, and of the
  terms with non-zero weight in documents \<open>i\<close> and \<open>j\<close>.
\<close>

definition pair_values :: "matrix \<Rightarrow> int list \<Rightarrow> int list \<Rightarrow> nat \<Rightarrow> nat \<Rightarrow> real list" where
  "pair_values S gold ids i j =
     map (\<lambda>p. S ! fst p ! snd p) (index_pairs (np_where_eq gold (ids ! i)) (np_where_eq gold (ids ! j)))"

definition item_values :: "matrix \<Rightarrow> matrix \<Rightarrow> nat \<Rightarrow> nat \<Rightarrow> real list" where
  "item_values dt V i j =
     map (\<lambda>p. gram V ! fst p ! snd p)
       (index_pairs (nonzero_indices (dt ! i)) (nonzero_indices (dt ! j)))"


definition top2_mean :: "real list \<Rightarrow> real" where
  "top2_mean xs = (let m = Max (set xs) in (m + Max (set (remove1 m xs))) / 2)"

definition square :: "nat \<Rightarrow> 'a list list \<Rightarrow> bool" where
  "square n M = (length M = n \<and> list_all (\<lambda>r. length r = n) M)"

section \<open>\<^verbatim>\<open>recreate_construct_identity_gold\<close> (is\_constructs.py, lines 31--56)\<close>

text \<open>
  The gold standard is a table with the columns \<^verbatim>\<open>Poolid\<close> and \<^verbatim>\<open>VariableID\<close>:
  a list of rows (pool, variable), in table order.
\<close>

type_synonym gold_standard = "(int \<times> int) list"

text \<open>\<^verbatim>\<open>gold_standard['VariableID'][gold_standard['Poolid'] == pool_id]\<close>.\<close>

definition pool_members :: "gold_standard \<Rightarrow> int \<Rightarrow> int list" where
  "pool_members gs pool_id = map snd (filter (\<lambda>r. fst r = pool_id) gs)"

text \<open>
  \<^verbatim>\<open>np.sort(np.unique(gold_standard['VariableID'][gold_standard['Poolid'].isin(pool_ids)]))\<close>.
\<close>

definition pooled_variable_ids :: "gold_standard \<Rightarrow> int list \<Rightarrow> int list" where
  "pooled_variable_ids gs pool_ids =
     sort (remdups (map snd (filter (\<lambda>r. fst r \<in> set pool_ids) gs)))"

text \<open>
  The matrix is a DataFrame whose rows and columns are labelled by
  \<^verbatim>\<open>variable_ids\<close>; \<open>label_pos\<close> is the position of a label.  The chained
  assignment \<^verbatim>\<open>frame[col][row] = 1\<close> first selects the column, which raises
  KeyError for an unknown label, and then writes into that column at the row
  label (in the pandas the source was written for the selected column is a
  view of the frame, so the write reaches the frame).  A row label the index
  lacks only enlarges the temporary column and leaves the frame as it is.
  The labels are taken to be distinct wherever a property below depends on
  the position of a label.
\<close>

fun label_pos :: "int list \<Rightarrow> int \<Rightarrow> nat option" where
  "label_pos [] v = None"
| "label_pos (l # ls) v = (if l = v then Some 0 else map_option Suc (label_pos ls v))"

definition df_set :: "int list \<Rightarrow> matrix \<Rightarrow> int \<Rightarrow> int \<Rightarrow> py_error + matrix" where
  "df_set labels M col row =
     (case label_pos labels col of
        None \<Rightarrow> Inl KeyError
      | Some c \<Rightarrow>
          (case label_pos labels row of
             None \<Rightarrow> Inr M
           | Some r \<Rightarrow> Inr (set_cell M r c 1)))"

text \<open>
  The pairs \<^verbatim>\<open>(pool_var_ids[ind_1], pool_var_ids[ind_2])\<close> visited by the two
  inner loops.
\<close>

definition pool_pairs :: "int list \<Rightarrow> (int \<times> int) list" where
  "pool_pairs pool_var_ids =
     map (\<lambda>p. (pool_var_ids ! fst p, pool_var_ids ! snd p)) (upper_pairs (length pool_var_ids))"

text \<open>
  The inner loops: \<^verbatim>\<open>indices = np.sort([var_id_1, var_id_2])\<close>, then
  \<^verbatim>\<open>construct_identity_gold[indices[1]][indices[0]] = 1\<close>: column of the larger
  identifier, row of the smaller one.
\<close>

fun rcig_pool :: "int list \<Rightarrow> (int \<times> int) list \<Rightarrow> matrix \<Rightarrow> py_error + matrix" where
  "rcig_pool labels [] M = Inr M"
| "rcig_pool labels ((var_id_1, var_id_2) # ps) M =
     (case df_set labels M (max var_id_1 var_id_2) (min var_id_1 var_id_2) of
        Inl e \<Rightarrow> Inl e
      | Inr M' \<Rightarrow> rcig_pool labels ps M')"

text \<open>The outer loop \<^verbatim>\<open>for pool_id in pool_ids\<close>.\<close>

fun rcig_pools :: "gold_standard \<Rightarrow> int list \<Rightarrow> int list \<Rightarrow> matrix \<Rightarrow> py_error + matrix" where
  "rcig_pools gs labels [] M = Inr M"
| "rcig_pools gs labels (pool_id # pool_ids) M =
     (case rcig_pool labels (pool_pairs (pool_members gs pool_id)) M of
        Inl e \<Rightarrow> Inl e
      | Inr M' \<Rightarrow> rcig_pools gs labels pool_ids M')"

text \<open>\<^verbatim>\<open>np.add(M, M.T)\<close> followed by \<^verbatim>\<open>np.fill_diagonal(M, 1)\<close>.\<close>

definition mirror_diag :: "matrix \<Rightarrow> matrix" where
  "mirror_diag U =
     map (\<lambda>i. map (\<lambda>j. if i = j then 1 else U ! i ! j + U ! j ! i) [0 ..< length U])
       [0 ..< length U]"

text \<open>The result: the labels and the matrix of the returned DataFrame.\<close>

definition recreate_construct_identity_gold ::
  "gold_standard \<Rightarrow> int list \<Rightarrow> int list option \<Rightarrow> py_error + (int list \<times> matrix)" where
  "recreate_construct_identity_gold gs pool_ids full_var_ids =
     (let variable_ids = (case full_var_ids of
                            Some ids \<Rightarrow> ids
                          | None \<Rightarrow> pooled_variable_ids gs pool_ids);
          n = length variable_ids
      in case rcig_pools gs variable_ids pool_ids (zeros2 n n) of
           Inl e \<Rightarrow> Inl e
         | Inr U \<Rightarrow> Inr (variable_ids, mirror_diag U))"

text \<open>
  The invariant of the loops: the matrix is square, every entry is 0 or 1, and
  an entry 1 sits at a row whose label is at most the label of its column.
\<close>

definition upper_binary :: "int list \<Rightarrow> matrix \<Rightarrow> bool" where
  "upper_binary labels U =
     (square (length labels) U \<and>
      (\<forall>i < length labels. \<forall>j < length labels.
         (U ! i ! j = 0 \<or> U ! i ! j = 1) \<and> (U ! i ! j = 1 \<longrightarrow> labels ! i \<le> labels ! j)))"

text \<open>Square, binary, symmetric, diagonal all 1.\<close>

definition identity_matrix_ok :: "nat \<Rightarrow> matrix \<Rightarrow> bool" where
  "identity_matrix_ok n G =
     (square n G \<and>
      (\<forall>i < n. \<forall>j < n. (G ! i ! j = 0 \<or> G ! i ! j = 1) \<and> G ! i ! j = G ! j ! i) \<and>
      (\<forall>i < n. G ! i ! i = 1))"

section \<open>\<^verbatim>\<open>parse_text\<close> (is\_constructs.py, lines 214--264)\<close>

text \<open>
  An element of \<^verbatim>\<open>documents\<close> is a Python object: a string, or something else
  (on which the \<^verbatim>\<open>assert isinstance(documents[i], str)\<close> fails).  Strings are
  lists of characters with code points below 256.
\<close>

datatype pyobj = Str string | NonStr

text \<open>
  The two stemmers of the \<^verbatim>\<open>stemming\<close> package and sklearn's stop-word list are
  not part of the repository; they are parameters.  A call of a stemmer
  returns a string or raises.
\<close>

datatype stem_outcome = Stemmed string | Raises py_error

record stem_lib =
  stem_porter2 :: "string \<Rightarrow> stem_outcome"
  stem_paicehusk :: "string \<Rightarrow> stem_outcome"
  ENGLISH_STOP_WORDS :: "string list"

text \<open>The keyword arguments, as in the source's \<^verbatim>\<open>parser_config\<close> dict.\<close>

record parser_config =
  stemmer :: "string option"
  lower :: bool
  remove_stop_words :: bool
  ignore_chars :: string

text \<open>
  \<^verbatim>\<open>str.split()\<close> without arguments: split at runs of whitespace, no empty
  pieces.  The whitespace characters below code point 256 are listed.
\<close>

definition is_space :: "char \<Rightarrow> bool" where
  "is_space c = (c \<in> set [CHR 0x09, CHR 0x0A, CHR 0x0B, CHR 0x0C, CHR 0x0D,
                           CHR 0x1C, CHR 0x1D, CHR 0x1E, CHR 0x1F, CHR 0x20,
                           CHR 0x85, CHR 0xA0])"

fun split_from :: "string \<Rightarrow> string \<Rightarrow> string list" where
  "split_from cur [] = (if cur = [] then [] else [cur])"
| "split_from cur (c # cs) =
     (if is_space c then (if cur = [] then split_from [] cs else cur # split_from [] cs)
      else split_from (cur @ [c]) cs)"

definition py_split :: "string \<Rightarrow> string list" where
  "py_split s = split_from [] s"

text \<open>\<^verbatim>\<open>' '.join(words)\<close>.\<close>

fun join_sp :: "string list \<Rightarrow> string" where
  "join_sp [] = []"
| "join_sp [w] = w"
| "join_sp (w # ws) = w @ CHR '' '' # join_sp ws"

text \<open>\<^verbatim>\<open>s.translate({ord(c): ' ' for c in ignore_chars})\<close>.\<close>

definition translate_ignore :: "string \<Rightarrow> string \<Rightarrow> string" where
  "translate_ignore ig s = map (\<lambda>c. if c \<in> set ig then CHR '' '' else c) s"

text \<open>
  \<^verbatim>\<open>s.lower()\<close>.  Below code point 256 the characters that it changes are the
  ASCII capitals and the Latin-1 capitals \<open>0xC0\<close> to \<open>0xDE\<close> without the
  multiplication sign \<open>0xD7\<close>; each goes to the character 32 code points
  above it.
\<close>

definition latin1_upper :: string where
  "latin1_upper = [CHR 0xC0, CHR 0xC1, CHR 0xC2, CHR 0xC3, CHR 0xC4, CHR 0xC5, CHR 0xC6, CHR 0xC7,
                   CHR 0xC8, CHR 0xC9, CHR 0xCA, CHR 0xCB, CHR 0xCC, CHR 0xCD, CHR 0xCE, CHR 0xCF,
                   CHR 0xD0, CHR 0xD1, CHR 0xD2, CHR 0xD3, CHR 0xD4, CHR 0xD5, CHR 0xD6, CHR 0xD8,
                   CHR 0xD9, CHR 0xDA, CHR 0xDB, CHR 0xDC, CHR 0xDD, CHR 0xDE]"

definition latin1_lower :: string where
  "latin1_lower = [CHR 0xE0, CHR 0xE1, CHR 0xE2, CHR 0xE3, CHR 0xE4, CHR 0xE5, CHR 0xE6, CHR 0xE7,
                   CHR 0xE8, CHR 0xE9, CHR 0xEA, CHR 0xEB, CHR 0xEC, CHR 0xED, CHR 0xEE, CHR 0xEF,
                   CHR 0xF0, CHR 0xF1, CHR 0xF2, CHR 0xF3, CHR 0xF4, CHR 0xF5, CHR 0xF6, CHR 0xF8,
                   CHR 0xF9, CHR 0xFA, CHR 0xFB, CHR 0xFC, CHR 0xFD, CHR 0xFE]"

definition lower_char :: "char \<Rightarrow> char" where
  "lower_char c =
     (case map_of (zip (''ABCDEFGHIJKLMNOPQRSTUVWXYZ'' @ latin1_upper)
                       (''abcdefghijklmnopqrstuvwxyz'' @ latin1_lower)) c of
        Some l \<Rightarrow> l
      | None \<Rightarrow> c)"

definition py_lower :: "string \<Rightarrow> string" where
  "py_lower s = map lower_char s"

text \<open>
  What the first lines of the loop body store back into \<^verbatim>\<open>documents[i]\<close>: the
  text with the ignore-characters replaced and the whitespace collapsed (if
  \<^verbatim>\<open>ignore_chars != ''\<close>), then lower-cased (if \<^verbatim>\<open>lower\<close>).
\<close>

definition clean_doc :: "parser_config \<Rightarrow> string \<Rightarrow> string" where
  "clean_doc cfg d =
     (let d1 = (if ignore_chars cfg \<noteq> [] then join_sp (py_split (translate_ignore (ignore_chars cfg) d))
                else d)
      in if lower cfg then py_lower d1 else d1)"

text \<open>\<^verbatim>\<open>d.get(k, default)\<close> on a dict literal.\<close>

definition dict_get :: "(string \<times> 'v) list \<Rightarrow> string \<Rightarrow> 'v \<Rightarrow> 'v" where
  "dict_get d k dflt = (case map_of d k of Some v \<Rightarrow> v | None \<Rightarrow> dflt)"

text \<open>
  The expression
  \<^verbatim>\<open>{'porter2': stem_porter2(word) + ' ', 'paicehusk': stem_paicehusk(word) + ' '}.get(stemmer, word + ' ')\<close>:
  the dict literal is built first, so both stemmers are called, in this order,
  whatever the selector is, and an exception of either leaves the expression.
\<close>

definition stem_entry :: "stem_lib \<Rightarrow> string \<Rightarrow> string \<Rightarrow> py_error + string" where
  "stem_entry lib sel word =
     (case stem_porter2 lib word of
        Raises e \<Rightarrow> Inl e
      | Stemmed a \<Rightarrow>
          (case stem_paicehusk lib word of
             Raises e \<Rightarrow> Inl e
           | Stemmed b \<Rightarrow>
               Inr (dict_get [(''porter2'', a @ '' ''), (''paicehusk'', b @ '' '')] sel (word @ '' ''))))"

text \<open>
  The loop \<^verbatim>\<open>for word in documents[i].split()\<close>, with its state: the text
  \<^verbatim>\<open>parsed_docs[i]\<close> built so far and the list \<^verbatim>\<open>error_words\<close>.  The handler
  \<^verbatim>\<open>except ValueError\<close> is the branch for \<open>Inl ValueError\<close>; any other exception
  propagates.
\<close>

fun parse_words ::
  "stem_lib \<Rightarrow> parser_config \<Rightarrow> string list \<Rightarrow> string \<times> string list
     \<Rightarrow> py_error + (string \<times> string list)" where
  "parse_words lib cfg [] s = Inr s"
| "parse_words lib cfg (word # ws) (parsed, error_words) =
     (if remove_stop_words cfg \<and> word \<in> set (ENGLISH_STOP_WORDS lib) then
        parse_words lib cfg ws (parsed, error_words)
      else if word = [] then
        parse_words lib cfg ws (parsed, error_words)
      else
        (case stemmer cfg of
           None \<Rightarrow> parse_words lib cfg ws (parsed @ word @ '' '', error_words)
         | Some sel \<Rightarrow>
             (case stem_entry lib sel word of
                Inr piece \<Rightarrow> parse_words lib cfg ws (parsed @ piece, error_words)
              | Inl e \<Rightarrow>
                  if e = ValueError then
                    parse_words lib cfg ws (parsed @ word @ '' '', error_words @ [word])
                  else Inl e)))"

text \<open>
  The loop \<^verbatim>\<open>for i in range(len(documents))\<close>.  Its state is the list
  \<^verbatim>\<open>documents\<close> itself, which the body assigns to, the list \<^verbatim>\<open>parsed_docs\<close> and
  \<^verbatim>\<open>error_words\<close>.  The list \<^verbatim>\<open>documents\<close> belongs to the caller, so it is
  returned next to the outcome, also when the call raises.
\<close>

fun pt_loop ::
  "stem_lib \<Rightarrow> parser_config \<Rightarrow> nat list \<Rightarrow> pyobj list \<times> string list \<times> string list
     \<Rightarrow> pyobj list \<times> (py_error + (string list \<times> string list))" where
  "pt_loop lib cfg [] (documents, parsed_docs, error_words) =
     (documents, Inr (parsed_docs, error_words))"
| "pt_loop lib cfg (i # is) (documents, parsed_docs, error_words) =
     (case documents ! i of
        NonStr \<Rightarrow> (documents, Inl AssertionError)
      | Str d \<Rightarrow>
          (let d' = clean_doc cfg d;
               documents' = documents[i := Str d']
           in case parse_words lib cfg (py_split d') ([], error_words) of
                Inl e \<Rightarrow> (documents', Inl e)
              | Inr (p, error_words') \<Rightarrow>
                  pt_loop lib cfg is
                    (documents', parsed_docs @ [join_sp (py_split p)], error_words')))"

text \<open>
  The call.  First component: the caller's \<^verbatim>\<open>documents\<close> after the call.  Second
  component: the exception, or the returned \<^verbatim>\<open>parsed_docs\<close> (empty strings
  filtered out) together with what \<^verbatim>\<open>verbose\<close> prints, the distinct error words.
  With \<^verbatim>\<open>return_config\<close> the source returns its own arguments as well; that is
  left out.
\<close>

definition parse_text ::
  "stem_lib \<Rightarrow> pyobj list \<Rightarrow> parser_config \<Rightarrow> bool
     \<Rightarrow> pyobj list \<times> (py_error + (string list \<times> string list list))" where
  "parse_text lib documents cfg verbose =
     (case pt_loop lib cfg [0 ..< length documents] (documents, [], []) of
        (documents', Inl e) \<Rightarrow> (documents', Inl e)
      | (documents', Inr (parsed_docs, error_words)) \<Rightarrow>
          (documents',
           Inr (filter (\<lambda>d. d \<noteq> []) parsed_docs,
                if verbose \<and> error_words \<noteq> [] then [remdups error_words] else [])))"

text \<open>
  The observable outcome without the diagnostic print: the caller's list after
  the call, and the exception or the returned documents.
\<close>

definition parsed_of ::
  "pyobj list \<times> (py_error + (string list \<times> string list list)) \<Rightarrow> pyobj list \<times> (py_error + string list)" where
  "parsed_of r = (fst r, map_sum id fst (snd r))"

text \<open>
  The stemmers fail with ValueError only, the one failure the source provides
  for.
\<close>

definition only_value_errors :: "stem_lib \<Rightarrow> bool" where
  "only_value_errors lib =
     (\<forall>w e. (stem_porter2 lib w = Raises e \<longrightarrow> e = ValueError)
          \<and> (stem_paicehusk lib w = Raises e \<longrightarrow> e = ValueError))"

definition clean_obj :: "parser_config \<Rightarrow> pyobj \<Rightarrow> pyobj" where
  "clean_obj cfg x = (case x of Str d \<Rightarrow> Str (clean_doc cfg d) | NonStr \<Rightarrow> NonStr)"

section \<open>\<^verbatim>\<open>document_term_cooccurrence\<close> (is\_constructs.py, lines 286--318)\<close>

text \<open>
  The counting is done by sklearn's
  \<^verbatim>\<open>CountVectorizer(stop_words=None, lowercase=False, dtype='int32')\<close>, which is
  not part of the repository and is modelled from its documented behaviour.
  Its \<^verbatim>\<open>token_pattern\<close> is left at the default \<^verbatim>\<open>(?u)\b\w\w+\b\<close>: a token is a
  maximal run of word characters that has at least two characters; every
  other character separates tokens.  The pattern is a Unicode one: its word
  characters are the underscore and every character that is alphanumeric for
  \<^verbatim>\<open>str.isalnum\<close>.  Below code point 256 these are the ASCII letters and
  digits, the underscore, and in Latin-1 the ordinal indicators \<open>0xAA\<close> and
  \<open>0xBA\<close>, the superscript digits \<open>0xB2\<close>, \<open>0xB3\<close> and \<open>0xB9\<close>, the micro
  sign \<open>0xB5\<close>, the fractions \<open>0xBC\<close> to \<open>0xBE\<close> and the letters \<open>0xC0\<close> to
  \<open>0xFF\<close> without the multiplication sign \<open>0xD7\<close> and the division sign
  \<open>0xF7\<close>.
\<close>

definition is_word_char :: "char \<Rightarrow> bool" where
  "is_word_char c =
     (c \<in> set ''abcdefghijklmnopqrstuvwxyzABCDEFGHIJKLMNOPQRSTUVWXYZ0123456789_''
      \<or> c \<in> set [CHR 0xAA, CHR 0xB2, CHR 0xB3, CHR 0xB5, CHR 0xB9, CHR 0xBA, CHR 0xBC, CHR 0xBD,
                  CHR 0xBE, CHR 0xC0, CHR 0xC1, CHR 0xC2, CHR 0xC3, CHR 0xC4, CHR 0xC5, CHR 0xC6,
                  CHR 0xC7, CHR 0xC8, CHR 0xC9, CHR 0xCA, CHR 0xCB, CHR 0xCC, CHR 0xCD, CHR 0xCE,
                  CHR 0xCF, CHR 0xD0, CHR 0xD1, CHR 0xD2, CHR 0xD3, CHR 0xD4, CHR 0xD5, CHR 0xD6,
                  CHR 0xD8, CHR 0xD9, CHR 0xDA, CHR 0xDB, CHR 0xDC, CHR 0xDD, CHR 0xDE, CHR 0xDF,
                  CHR 0xE0, CHR 0xE1, CHR 0xE2, CHR 0xE3, CHR 0xE4, CHR 0xE5, CHR 0xE6, CHR 0xE7,
                  CHR 0xE8, CHR 0xE9, CHR 0xEA, CHR 0xEB, CHR 0xEC, CHR 0xED, CHR 0xEE, CHR 0xEF,
                  CHR 0xF0, CHR 0xF1, CHR 0xF2, CHR 0xF3, CHR 0xF4, CHR 0xF5, CHR 0xF6, CHR 0xF8,
                  CHR 0xF9, CHR 0xFA, CHR 0xFB, CHR 0xFC, CHR 0xFD, CHR 0xFE, CHR 0xFF])"

text \<open>The maximal runs of word characters of a document, in order.\<close>

fun word_runs :: "string \<Rightarrow> string \<Rightarrow> string list" where
  "word_runs cur [] = (if cur = [] then [] else [cur])"
| "word_runs cur (c # cs) =
     (if is_word_char c then word_runs (cur @ [c]) cs
      else (if cur = [] then word_runs [] cs else cur # word_runs [] cs))"

definition tokenize :: "string \<Rightarrow> string list" where
  "tokenize doc = filter (\<lambda>w. 2 \<le> length w) (word_runs [] doc)"

text \<open>
  The fitted vocabulary, \<^verbatim>\<open>get_feature_names()\<close>: the distinct tokens of the
  corpus in ascending string order.  \<^verbatim>\<open>fit_transform\<close> raises ValueError
  (``empty vocabulary'') when no document yields a token.
\<close>

definition fit_vocabulary :: "string list \<Rightarrow> py_error + string list" where
  "fit_vocabulary corpus =
     (let vocabulary = sort (remdups (concat (map tokenize corpus)))
      in if vocabulary = [] then Inl ValueError else Inr vocabulary)"

text \<open>\<^verbatim>\<open>fit_transform(corpus).toarray()\<close>: one row per document, one column per term.\<close>

definition count_matrix :: "string list \<Rightarrow> string list \<Rightarrow> nat list list" where
  "count_matrix corpus terms = map (\<lambda>doc. map (\<lambda>t. count_list (tokenize doc) t) terms) corpus"

text \<open>The counts as the floats that numpy computes with.\<close>

definition to_real :: "nat list list \<Rightarrow> matrix" where
  "to_real C = map (map real) C"

text \<open>
  numpy on matrices: \<^verbatim>\<open>np.sum(A, axis=0)\<close>, \<^verbatim>\<open>np.tile(v, (n, 1))\<close>,
  \<^verbatim>\<open>np.multiply\<close> and \<^verbatim>\<open>np.divide\<close> (element by element, on matrices of one
  shape).
\<close>

definition col_sums :: "matrix \<Rightarrow> real list" where
  "col_sums A = map (\<lambda>j. sum_list (map (\<lambda>r. r ! j) A)) [0 ..< ncols A]"

definition tile :: "real list \<Rightarrow> nat \<Rightarrow> matrix" where
  "tile v n = replicate n v"

definition mat_mul :: "matrix \<Rightarrow> matrix \<Rightarrow> matrix" where
  "mat_mul A B = map2 (map2 (*)) A B"

definition mat_div :: "matrix \<Rightarrow> matrix \<Rightarrow> matrix" where
  "mat_div A B = map2 (map2 (/)) A B"

text \<open>
  \<^verbatim>\<open>np.log(x)\<close> followed by \<^verbatim>\<open>m[np.isneginf(m)] = 0\<close>: the logarithm, with 0 in the
  place of the \<open>-inf\<close> that \<^verbatim>\<open>np.log(0)\<close> gives.
\<close>

definition log_neginf_zero :: "real \<Rightarrow> real" where
  "log_neginf_zero x = (if x = 0 then 0 else ln x)"

text \<open>
  \<^verbatim>\<open>TfidfVectorizer(stop_words=None, lowercase=False, norm='l2', use_idf=True,
  smooth_idf=True)\<close>, fitted on the same corpus, has the same vocabulary; before
  its row normalisation it multiplies every count by the smoothed inverse
  document frequency \<open>ln ((1 + n) / (1 + df)) + 1\<close> of its column.
\<close>

definition dt_matrix_tfidf :: "nat list list \<Rightarrow> matrix" where
  "dt_matrix_tfidf counts =
     (let dt = to_real counts;
          n = length dt;
          df = map (\<lambda>j. length (filter (\<lambda>r. r ! j \<noteq> 0) dt)) [0 ..< ncols dt];
          idf = map (\<lambda>k. ln ((1 + real n) / (1 + real k)) + 1) df
      in map (\<lambda>r. map2 (*) r idf) dt)"

text \<open>
  The branch \<^verbatim>\<open>processing == 'log_l2'\<close>, line by line, before the final row
  normalisation.
\<close>

definition dt_matrix_log :: "nat list list \<Rightarrow> matrix" where
  "dt_matrix_log counts =
     (let dt_matrix = to_real counts;
          n = length dt_matrix;
          local_weight_matrix = map (map (\<lambda>c. ln (c + 1))) dt_matrix;
          p_matrix = mat_div dt_matrix (tile (col_sums dt_matrix) n);
          log_p_matrix = map (map (\<lambda>p. log_neginf_zero (p + 1))) p_matrix;
          global_weight_matrix =
            tile (map (\<lambda>s. 1 + s / ln (real n + 1)) (col_sums (mat_mul p_matrix log_p_matrix))) n;
          final_weight_matrix = mat_mul local_weight_matrix global_weight_matrix
      in mat_mul dt_matrix final_weight_matrix)"

text \<open>
  The module-level log-entropy weighting of myLSA.py (lines 32--43), as a
  function of the count matrix: the same lines, with \<^verbatim>\<open>np.log(p_matrix)\<close> where
  is\_constructs.py has \<^verbatim>\<open>np.log(p_matrix + 1)\<close>.
\<close>

definition dt_matrix_log_myLSA :: "nat list list \<Rightarrow> matrix" where
  "dt_matrix_log_myLSA counts =
     (let dt_matrix = to_real counts;
          n = length dt_matrix;
          local_weight_matrix = map (map (\<lambda>c. ln (c + 1))) dt_matrix;
          p_matrix = mat_div dt_matrix (tile (col_sums dt_matrix) n);
          log_matrix = map (map log_neginf_zero) p_matrix;
          global_weight_matrix =
            tile (map (\<lambda>s. 1 + s / ln (real n + 1)) (col_sums (mat_mul p_matrix log_matrix))) n;
          final_weight_matrix = mat_mul local_weight_matrix global_weight_matrix
      in mat_mul dt_matrix final_weight_matrix)"

definition dt_matrix_log_l2_myLSA :: "nat list list \<Rightarrow> matrix" where
  "dt_matrix_log_l2_myLSA counts = Normalizer_l2 (dt_matrix_log_myLSA counts)"

text \<open>
  The function: the matrix and the terms of the returned DataFrame, or the
  exception.  An unknown processing method reaches \<^verbatim>\<open>assert False\<close>.
\<close>

definition document_term_cooccurrence :: "string list \<Rightarrow> string \<Rightarrow> py_error + (matrix \<times> string list)" where
  "document_term_cooccurrence corpus processing =
     (case fit_vocabulary corpus of
        Inl e \<Rightarrow> Inl e
      | Inr terms \<Rightarrow>
          (let dt_matrix = count_matrix corpus terms
           in if processing = ''count'' then Inr (to_real dt_matrix, terms)
              else if processing = ''l2'' then Inr (Normalizer_l2 (to_real dt_matrix), terms)
              else if processing = ''tfidf_l2'' then Inr (Normalizer_l2 (dt_matrix_tfidf dt_matrix), terms)
              else if processing = ''log_l2'' then Inr (Normalizer_l2 (dt_matrix_log dt_matrix), terms)
              else Inl AssertionError))"

subsection \<open>Vocabulary for stating the weighting formulas\<close>

text \<open>Every row of the matrix has \<open>m\<close> entries.\<close>

definition rect :: "nat \<Rightarrow> 'a list list \<Rightarrow> bool" where
  "rect m A = list_all (\<lambda>r. length r = m) A"

text \<open>
  The log-entropy weighting as the specification words it: with
  \<open>p = count / column_total\<close>, the global weight of a term is
  \<open>1 + (\<Sum>doc. p * ln (p + 1)) / ln (n_docs + 1)\<close>, and a cell is
  \<open>count * ln (count + 1) * global_weight\<close>.
\<close>

definition column_total :: "nat list list \<Rightarrow> nat \<Rightarrow> real" where
  "column_total C t = sum_list (map (\<lambda>row. real (row ! t)) C)"

definition global_weight :: "nat list list \<Rightarrow> nat \<Rightarrow> real" where
  "global_weight C t =
     1 + sum_list (map (\<lambda>row. (real (row ! t) / column_total C t)
                                * ln (real (row ! t) / column_total C t + 1)) C)
         / ln (real (length C) + 1)"

definition log_entropy_cell :: "nat list list \<Rightarrow> nat \<Rightarrow> nat \<Rightarrow> real" where
  "log_entropy_cell C d t =
     real (C ! d ! t) * ln (real (C ! d ! t) + 1) * global_weight C t"

definition log_entropy_cells :: "nat list list \<Rightarrow> matrix" where
  "log_entropy_cells C =
     map (\<lambda>d. map (\<lambda>t. log_entropy_cell C d t) [0 ..< length (C ! d)]) [0 ..< length C]"

text \<open>
  The same with \<open>p * ln p\<close> in the sum, a document that lacks the term
  contributing 0.
\<close>

definition global_weight_myLSA :: "nat list list \<Rightarrow> nat \<Rightarrow> real" where
  "global_weight_myLSA C t =
     1 + sum_list (map (\<lambda>row. if row ! t = 0 then 0
                               else (real (row ! t) / column_total C t)
                                    * ln (real (row ! t) / column_total C t)) C)
         / ln (real (length C) + 1)"

definition log_entropy_cells_myLSA :: "nat list list \<Rightarrow> matrix" where
  "log_entropy_cells_myLSA C =
     map (\<lambda>d. map (\<lambda>t. real (C ! d ! t) * ln (real (C ! d ! t) + 1) * global_weight_myLSA C t)
                [0 ..< length (C ! d)]) [0 ..< length C]"

text \<open>The share of a document in the column total of a term.\<close>

definition share :: "nat list list \<Rightarrow> nat list \<Rightarrow> nat \<Rightarrow> real" where
  "share C row t = real (row ! t) / column_total C t"

text \<open>The smoothed inverse document frequency of a column.\<close>

definition idf :: "nat list list \<Rightarrow> nat \<Rightarrow> real" where
  "idf C j = ln ((1 + real (length C)) / (1 + real (length (filter (\<lambda>row. row ! j \<noteq> 0) C)))) + 1"
section \<open>Properties of the normalizer\<close>

lemma l2_norm_zeros: "l2_norm (zeros d) = 0"
  by (simp add: l2_norm_def zeros_def sum_list_replicate)

lemma normalize_row_zeros: "normalize_row (zeros d) = zeros d"
  by (simp add: normalize_row_def l2_norm_zeros)

lemma sum_list_squares_nonneg: "0 \<le> sum_list (map (\<lambda>x. x * x) (v :: real list))"
  by (induction v) auto

lemma l2_norm_nonneg: "0 \<le> l2_norm v"
  by (simp add: l2_norm_def sum_list_squares_nonneg)

lemma l2_norm_scale:
  assumes "0 < c"
  shows "l2_norm (map (\<lambda>x. x / c) v) = l2_norm v / c"
proof -
  have "sum_list (map (\<lambda>x. (x / c) * (x / c)) v) = sum_list (map (\<lambda>x. x * x) v) / (c * c)"
    by (induction v) (auto simp: add_divide_distrib)
  then have "l2_norm (map (\<lambda>x. x / c) v) = sqrt (sum_list (map (\<lambda>x. x * x) v) / (c * c))"
    by (simp add: l2_norm_def comp_def)
  also have "\<dots> = l2_norm v / c"
    using assms by (simp add: l2_norm_def real_sqrt_divide)
  finally show ?thesis .
qed

lemma l2_norm_normalize_row:
  assumes "l2_norm v \<noteq> 0"
  shows "l2_norm (normalize_row v) = 1"
proof -
  have pos: "0 < l2_norm v"
    using assms l2_norm_nonneg [of v] by linarith
  show ?thesis
    using pos by (simp add: normalize_row_def l2_norm_scale)
qed

section \<open>Properties of \<^verbatim>\<open>term_vectors_from_dict\<close>\<close>

lemma first_value_nonempty:
  "vd \<noteq> [] \<Longrightarrow> first_value vd = Inr (snd (hd vd))"
  by (cases vd) (auto simp: first_value_def)

lemma uniform_dict_lookup:
  assumes "uniform_dict vd" and "map_of vd t = Some v"
  shows "length v = dict_dim vd"
proof -
  have "(t, v) \<in> set vd"
    using assms(2) by (rule map_of_SomeD)
  then show ?thesis
    using assms(1) by (auto simp: uniform_dict_def list_all_iff)
qed

lemma tvfd_loop_result:
  assumes "vd \<noteq> []" and "uniform_dict vd"
    and "i + length ts \<le> length M"
    and "\<forall>r \<in> set M. length r = dict_dim vd"
  shows "tvfd_loop vd ts (M, i, c) =
           Inr (take i M @ map (row_for vd) ts @ drop (i + length ts) M,
                i + length ts, c + oov_count vd ts)"
  using assms(3,4)
proof (induction ts arbitrary: M i c)
  case Nil
  then show ?case by (simp add: oov_count_def)
next
  case (Cons t ts)
  have i_lt: "i < length M"
    using Cons.prems(1) by simp
  have width: "length (M ! i) = dict_dim vd"
    using Cons.prems(2) i_lt by simp
  define r where "r = row_for vd t"
  have r_len: "length r = dict_dim vd"
    using assms(2) by (auto simp: r_def row_for_def zeros_def uniform_dict_lookup split: option.splits)
  have step: "set_row M i r = Inr (M[i := r])"
    using i_lt width r_len by (simp add: set_row_def)
  have rows: "\<forall>q \<in> set (M[i := r]). length q = dict_dim vd"
    using Cons.prems(2) r_len by (auto dest!: set_update_subset_insert [THEN subsetD])
  have bound: "Suc i + length ts \<le> length (M[i := r])"
    using Cons.prems(1) by simp
  have IH: "tvfd_loop vd ts (M[i := r], Suc i, c') =
              Inr (take (Suc i) (M[i := r]) @ map (row_for vd) ts @ drop (Suc i + length ts) (M[i := r]),
                   Suc i + length ts, c' + oov_count vd ts)" for c'
    using Cons.IH [OF bound rows] .
  have shape: "take (Suc i) (M[i := r]) @ map (row_for vd) ts @ drop (Suc i + length ts) (M[i := r])
             = take i M @ map (row_for vd) (t # ts) @ drop (i + length (t # ts)) M"
    using i_lt by (simp add: take_Suc_conv_app_nth r_def)
  show ?case
  proof (cases "map_of vd t")
    case None
    then have r_eq: "r = zeros (dict_dim vd)"
      by (simp add: r_def row_for_def)
    have "tvfd_loop vd (t # ts) (M, i, c) = tvfd_loop vd ts (M[i := r], Suc i, c + 1)"
      using None step first_value_nonempty [OF assms(1)]
      by (simp add: r_eq dict_dim_def)
    then show ?thesis
      using IH [of "c + 1"] shape None by (simp add: oov_count_def)
  next
    case (Some v)
    then have r_eq: "r = v"
      by (simp add: r_def row_for_def)
    have "tvfd_loop vd (t # ts) (M, i, c) = tvfd_loop vd ts (M[i := r], Suc i, c)"
      using Some step by (simp add: r_eq)
    then show ?thesis
      using IH [of c] shape Some by (simp add: oov_count_def)
  qed
qed

lemma row_for_length: "uniform_dict vd \<Longrightarrow> length (row_for vd t) = dict_dim vd"
  by (auto simp: row_for_def zeros_def uniform_dict_lookup split: option.splits)

lemma ncols_rows:
  assumes "uniform_dict vd" and "ts \<noteq> []"
  shows "ncols (map (row_for vd) ts) = dict_dim vd"
  using assms by (cases ts) (simp_all add: ncols_def row_for_length)

lemma term_vectors_from_dict_result:
  assumes "vd \<noteq> []" and "uniform_dict vd"
  shows "term_vectors_from_dict vd ts do_normalize verbose =
           (if do_normalize \<and> (ts = [] \<or> dict_dim vd = 0) then Inl ValueError
            else Inr (if do_normalize then Normalizer_l2 (map (row_for vd) ts) else map (row_for vd) ts,
                      if verbose then [OOV_report (oov_count vd ts)] else []))"
proof -
  have rows: "\<forall>r \<in> set (zeros2 (length ts) (dict_dim vd)). length r = dict_dim vd"
    by (simp add: zeros2_def zeros_def)
  have len: "0 + length ts \<le> length (zeros2 (length ts) (dict_dim vd))"
    by (simp add: zeros2_def)
  have loop: "tvfd_loop vd ts (zeros2 (length ts) (dict_dim vd), 0, 0) =
          Inr (map (row_for vd) ts, length ts, oov_count vd ts)"
    using tvfd_loop_result [OF assms len rows, of 0] by (simp add: zeros2_def)
  have fit: "Normalizer_fit_transform (map (row_for vd) ts) =
               (if ts = [] \<or> dict_dim vd = 0 then Inl ValueError
                else Inr (Normalizer_l2 (map (row_for vd) ts)))"
    using ncols_rows [OF assms(2), of ts] by (auto simp: Normalizer_fit_transform_def)
  show ?thesis
    using first_value_nonempty [OF assms(1)] loop fit
    by (simp add: term_vectors_from_dict_def dict_dim_def)
qed

text \<open>
  Claim C10.  With an empty vector dictionary the dimensionality probe
  \<^verbatim>\<open>next(iter(vector_dict.values()))\<close> raises (StopIteration) before any row is
  built, whatever the list of target terms, the normalisation flag and the
  verbosity are; no matrix is returned.
\<close>

theorem term_vectors_from_dict_empty_dict_raises:
  "term_vectors_from_dict [] target_terms do_normalize verbose = Inl StopIteration"
  by (simp add: term_vectors_from_dict_def first_value_def)

lemma row_for_miss: "map_of vd t = None \<Longrightarrow> row_for vd t = zeros (dict_dim vd)"
  by (simp add: row_for_def)

text \<open>
  With normalisation requested (the default), an empty list of target terms or
  a dictionary of vectors of dimension 0 makes the normaliser's input
  validation raise ValueError.
\<close>

lemma term_vectors_from_dict_empty_matrix_raises:
  assumes "vd \<noteq> []" and "uniform_dict vd" and "target_terms = [] \<or> dict_dim vd = 0"
  shows "term_vectors_from_dict vd target_terms True verbose = Inl ValueError"
  using term_vectors_from_dict_result [OF assms(1,2), of target_terms True verbose] assms(3)
  by simp

text \<open>
  Claim C7 (as amended).  For a non-empty vector dictionary whose vectors share
  one dimensionality, and any ordered list of target terms (with at least one
  target term and a dimensionality of at least one when L2 row normalisation
  is requested), the call returns a matrix with one row per target term and
  raises nothing; the row of every target term absent from the dictionary is
  the all-zero vector of the dictionary's dimensionality, also when L2 row
  normalisation is requested; the number of misses is counted, and it is
  printed when \<^verbatim>\<open>verbose\<close> is set (nothing is printed otherwise, and the count
  is not part of the returned value).
\<close>

theorem term_vectors_from_dict_oov_zero_rows:
  assumes "vd \<noteq> []" and "uniform_dict vd"
    and "do_normalize \<longrightarrow> target_terms \<noteq> [] \<and> 0 < dict_dim vd"
  shows "\<exists>M. term_vectors_from_dict vd target_terms do_normalize verbose =
               Inr (M, if verbose then [OOV_report (oov_count vd target_terms)] else [])
             \<and> length M = length target_terms
             \<and> (\<forall>i < length target_terms.
                  map_of vd (target_terms ! i) = None \<longrightarrow> M ! i = zeros (dict_dim vd))"
proof (cases do_normalize)
  case True
  have "\<forall>i < length target_terms. map_of vd (target_terms ! i) = None \<longrightarrow>
          Normalizer_l2 (map (row_for vd) target_terms) ! i = zeros (dict_dim vd)"
    by (simp add: Normalizer_l2_def row_for_miss normalize_row_zeros)
  then show ?thesis
    using True assms(3)
      term_vectors_from_dict_result [OF assms(1,2), of target_terms do_normalize verbose]
    by (simp add: Normalizer_l2_def)
next
  case False
  have "\<forall>i < length target_terms. map_of vd (target_terms ! i) = None \<longrightarrow>
          map (row_for vd) target_terms ! i = zeros (dict_dim vd)"
    by (simp add: row_for_miss)
  then show ?thesis
    using False term_vectors_from_dict_result [OF assms(1,2), of target_terms do_normalize verbose]
    by simp
qed

text \<open>
  The example of the specification: a dictionary of three entries of dimension
  four, one target term that it lacks.
\<close>

theorem term_vectors_from_dict_oov_zero_rows_witness:
  "\<exists>M. term_vectors_from_dict
          [(''it'', [1, 0, 0, 0]), (''great'', [0, 2, 0, 0]), (''sir'', [0, 0, 3, 4])]
          [''situat''] True True = Inr (M, [OOV_report 1])
      \<and> length M = 1 \<and> M ! 0 = [0, 0, 0, 0]"
  using term_vectors_from_dict_oov_zero_rows
    [of "[(''it'', [1, 0, 0, 0]), (''great'', [0, 2, 0, 0]), (''sir'', [0, 0, 3, 4])]"
        True "[''situat'']" True]
  by (simp add: uniform_dict_def dict_dim_def oov_count_def zeros_def)

text \<open>
  Claim C7 as stated fails where it says that the tally is reported to the
  caller: with the default \<^verbatim>\<open>verbose=False\<close> one term is missed, the returned
  value is the matrix alone, and nothing is printed.
\<close>

theorem term_vectors_from_dict_tally_not_reported:
  "oov_count [(''it'', [1, 0])] [''situat''] = 1
   \<and> term_vectors_from_dict [(''it'', [1, 0])] [''situat''] True False = Inr ([[0, 0]], [])"
  by (simp add: oov_count_def term_vectors_from_dict_def first_value_def set_row_def
      zeros2_def zeros_def Normalizer_fit_transform_def ncols_def Normalizer_l2_def
      normalize_row_def l2_norm_def)

section \<open>Properties of the similarity aggregators\<close>

lemma np_where_eq_bound: "k \<in> set (np_where_eq col v) \<Longrightarrow> k < length col"
  by (simp add: np_where_eq_def)

lemma index_pairs_set: "set (index_pairs xs ys) = set xs \<times> set ys"
  by (auto simp: index_pairs_def)

lemma cell_covers:
  assumes "covers S m" "fst p < m" "snd p < m"
  shows "cell S p = Inr (S ! fst p ! snd p)"
proof -
  have a: "fst p < length S" using assms by (simp add: covers_def)
  then have "S ! fst p \<in> set S" by simp
  then have "m \<le> length (S ! fst p)" using assms(1) by (simp add: covers_def list_all_iff)
  then show ?thesis using a assms(3) by (simp add: cell_def)
qed

lemma lookup_all_covers:
  assumes "covers S m" and "\<forall>p \<in> set ps. fst p < m \<and> snd p < m"
  shows "lookup_all S ps = Inr (map (\<lambda>p. S ! fst p ! snd p) ps)"
  using assms(2)
proof (induction ps)
  case Nil
  then show ?case by simp
next
  case (Cons p ps)
  then show ?case using cell_covers [OF assms(1), of p] by simp
qed

lemma lookup_pair_values:
  assumes "covers S (length gold)"
  shows "lookup_all S (index_pairs (np_where_eq gold a) (np_where_eq gold b))
         = Inr (map (\<lambda>p. S ! fst p ! snd p) (index_pairs (np_where_eq gold a) (np_where_eq gold b)))"
  by (rule lookup_all_covers [OF assms]) (auto simp: index_pairs_set dest: np_where_eq_bound)

lemma top_average_in_range: "n < 2 ^ 63 \<Longrightarrow> top_average n sub = Inr (top_avg n sub)"
  by (simp add: top_average_def)

lemma acs_loop_fold:
  assumes "covers S (length gold)" and "n < 2 ^ 63"
  shows "acs_loop S gold ids n ps C =
           Inr (fold (\<lambda>p C. set_cell C (fst p) (snd p)
                        (top_avg n (pair_values S gold ids (fst p) (snd p)))) ps C)"
proof (induction ps arbitrary: C)
  case Nil
  then show ?case by simp
next
  case (Cons p ps)
  obtain a b where p: "p = (a, b)" by (cases p)
  show ?case
    using Cons.IH lookup_pair_values [OF assms(1)]
    by (simp add: p pair_values_def top_average_in_range [OF assms(2)])
qed

lemma square_row: "square n M \<Longrightarrow> a < n \<Longrightarrow> length (M ! a) = n"
  by (simp add: square_def list_all_length)

lemma square_set_cell:
  assumes "square n M"
  shows "square n (set_cell M i j v)"
proof -
  have "length (set_cell M i j v ! a) = n" if "a < n" for a
    using that assms square_row [OF assms that]
    by (cases "a = i") (simp_all add: set_cell_def square_def)
  then show ?thesis
    using assms by (simp add: square_def list_all_length set_cell_def)
qed

lemma set_cell_nth:
  assumes "square n M" "a < n" "b < n"
  shows "set_cell M i j v ! a ! b = (if a = i \<and> b = j then v else M ! a ! b)"
proof (cases "a = i")
  case True
  have "length (M ! a) = n" by (rule square_row [OF assms(1,2)])
  then show ?thesis
    using True assms by (cases "b = j") (simp_all add: set_cell_def square_def)
next
  case False
  then show ?thesis by (simp add: set_cell_def)
qed

lemma fold_set_cell_nth:
  assumes "a < n" "b < n"
  shows "square n M \<Longrightarrow>
         fold (\<lambda>p C. set_cell C (fst p) (snd p) (g p)) ps M ! a ! b =
           (if (a, b) \<in> set ps then g (a, b) else M ! a ! b)"
proof (induction ps arbitrary: M rule: rev_induct)
  case Nil
  then show ?case by simp
next
  case (snoc p ps)
  have sq: "square n (fold (\<lambda>p C. set_cell C (fst p) (snd p) (g p)) ps M)" for ps
    using snoc.prems by (induction ps rule: rev_induct) (auto simp: square_set_cell)
  show ?case
    using snoc.IH [OF snoc.prems] set_cell_nth [OF sq assms]
    by (cases p) auto
qed

lemma square_fold_set_cell:
  "square n M \<Longrightarrow> square n (fold (\<lambda>p C. set_cell C (fst p) (snd p) (g p)) ps M)"
  by (induction ps rule: rev_induct) (auto simp: square_set_cell)

lemma upper_pairs_set: "(a, b) \<in> set (upper_pairs n) \<longleftrightarrow> a < b \<and> b < n"
proof
  assume "(a, b) \<in> set (upper_pairs n)"
  then show "a < b \<and> b < n" by (auto simp: upper_pairs_def)
next
  assume ab: "a < b \<and> b < n"
  then have "a \<in> {0..<n - 1}" and "(a, b) \<in> Pair a ` {a + 1..<n}" by auto
  then show "(a, b) \<in> set (upper_pairs n)" by (auto simp: upper_pairs_def)
qed

lemma square_replicate: "square n (replicate n (replicate n x))"
  by (simp add: square_def list_all_iff)

lemma nan_to_num_nth:
  "square n C \<Longrightarrow> a < n \<Longrightarrow> b < n \<Longrightarrow>
     nan_to_num C ! a ! b = (case C ! a ! b of Finite r \<Rightarrow> r | NaN \<Rightarrow> 0)"
  using square_row [of n C a] by (simp add: nan_to_num_def square_def)

lemma acs_entry:
  assumes "covers S (length gold)" and "i < j" and "j < length ids" and "n < 2 ^ 63"
  shows "\<exists>R. aggregate_construct_similarity S gold ids n = Inr R \<and>
           R ! i ! j = (case top_avg n (pair_values S gold (sort ids) i j) of
                          Finite r \<Rightarrow> r | NaN \<Rightarrow> 0)"
proof -
  let ?n = "length (sort ids)"
  let ?g = "\<lambda>p. top_avg n (pair_values S gold (sort ids) (fst p) (snd p))"
  let ?C = "fold (\<lambda>p C. set_cell C (fst p) (snd p) (?g p)) (upper_pairs ?n)
              (replicate ?n (replicate ?n (Finite 0)))"
  have run: "aggregate_construct_similarity S gold ids n = Inr (nan_to_num ?C)"
    by (simp add: aggregate_construct_similarity_def Let_def acs_loop_fold [OF assms(1,4)])
  have sq: "square ?n ?C"
    by (rule square_fold_set_cell [OF square_replicate])
  have ij: "i < ?n" "j < ?n" using assms by simp_all
  have "?C ! i ! j = ?g (i, j)"
    using fold_set_cell_nth [OF ij square_replicate, of ?g "upper_pairs ?n" "Finite 0"] assms
    by (simp add: upper_pairs_set)
  then show ?thesis
    using run nan_to_num_nth [OF sq ij] by simp
qed

lemma sorted_Max_last:
  assumes "sorted ys" "ys \<noteq> []"
  shows "Max (set ys) = last (ys :: real list)"
proof -
  have ys: "ys = butlast ys @ [last ys]" using assms(2) by simp
  have "sorted (butlast ys @ [last ys])" using assms(1) ys by simp
  then have "\<forall>x \<in> set (butlast ys). x \<le> last ys" by (simp add: sorted_append)
  then have "\<forall>x \<in> set ys. x \<le> last ys" by (subst ys) auto
  then show ?thesis using assms(2) by (intro Max_eqI) auto
qed

lemma top2_sorted:
  assumes "2 \<le> length xs"
  shows "sum_list (drop (length xs - 2) (sort xs)) = 2 * top2_mean xs"
proof -
  define ys where "ys = sort xs"
  have len: "length ys = length xs" and srt: "sorted ys" and ms: "mset ys = mset xs"
    by (simp_all add: ys_def)
  have ne: "ys \<noteq> []" using assms len by auto
  define m where "m = last ys"
  define zs where "zs = butlast ys"
  have ys: "ys = zs @ [m]" using ne by (simp add: zs_def m_def)
  have zne: "zs \<noteq> []" using assms len ys by auto
  have setxs: "set xs = set ys" using ms by (metis set_mset_mset)
  have m_max: "Max (set xs) = m"
    using sorted_Max_last [OF srt ne] by (simp add: setxs m_def)
  have "add_mset m (mset zs) = mset xs"
    using ms ys by simp
  then have "mset xs - {#m#} = mset zs"
    by (metis add_mset_remove_trivial)
  then have "mset (remove1 m xs) = mset zs"
    by simp
  then have "set (remove1 m xs) = set zs" by (metis set_mset_mset)
  moreover have "sorted zs" using srt ys by (simp add: sorted_append)
  ultimately have second: "Max (set (remove1 m xs)) = last zs"
    using sorted_Max_last [OF _ zne] by simp
  have "ys = butlast zs @ [last zs, m]" using ys zne by simp
  moreover have "length (butlast zs) = length xs - 2" using len ys by simp
  ultimately have "drop (length xs - 2) ys = [last zs, m]"
    by (metis append_eq_conv_conj)
  then show ?thesis
    by (simp add: ys_def [symmetric] top2_mean_def Let_def m_max second)
qed

lemma top_average_two:
  assumes "2 \<le> length xs"
  shows "top_avg 2 xs = Finite (top2_mean xs)"
proof -
  have two: "length (drop (length xs - 2) (sort xs)) = 2" using assms by simp
  then have ne: "drop (length xs - 2) (sort xs) \<noteq> []" by auto
  have eq: "tail_slice 2 (sort xs) = drop (length xs - 2) (sort xs)"
    by (simp add: tail_slice_def)
  show ?thesis
    using top2_sorted [OF assms] ne two
    by (simp add: top_average_def top_avg_def eq np_average_def)
qed

lemma covers_gram: "covers (gram V) (length V)"
  by (simp add: covers_def gram_def list_all_iff)

lemma covers_mono: "covers S m \<Longrightarrow> k \<le> m \<Longrightarrow> covers S k"
  by (auto simp: covers_def list_all_iff)

lemma nonzero_indices_bound: "k \<in> set (nonzero_indices row) \<Longrightarrow> k < length row"
  by (simp add: nonzero_indices_def)

lemma ais_loop_fold:
  assumes "rows_fit dt V" and "\<forall>p \<in> set ps. fst p < length dt \<and> snd p < length dt"
    and "n < 2 ^ 63"
  shows "ais_loop dt (gram V) n ps (M, c1, c0) =
           Inr (fold (\<lambda>p C. set_cell C (fst p) (snd p)
                        (top_avg n (item_values dt V (fst p) (snd p)))) ps M, c1, c0)"
  using assms(2)
proof (induction ps arbitrary: M)
  case Nil
  then show ?case by simp
next
  case (Cons p ps)
  obtain a b where p: "p = (a, b)" by (cases p)
  have ab: "a < length dt" "b < length dt" using Cons.prems by (simp_all add: p)
  have fit: "length (dt ! a) \<le> length V" "length (dt ! b) \<le> length V"
    using assms(1) ab by (simp_all add: rows_fit_def list_all_length)
  have "\<forall>q \<in> set (index_pairs (nonzero_indices (dt ! a)) (nonzero_indices (dt ! b))).
          fst q < length V \<and> snd q < length V"
    using fit by (auto simp: index_pairs_set dest!: nonzero_indices_bound)
  then have look: "lookup_all (gram V) (index_pairs (nonzero_indices (dt ! a)) (nonzero_indices (dt ! b)))
           = Inr (item_values dt V a b)"
    unfolding item_values_def by (rule lookup_all_covers [OF covers_gram])
  have rest: "\<forall>p \<in> set ps. fst p < length dt \<and> snd p < length dt"
    using Cons.prems by simp
  show ?case
    using Cons.IH [OF rest] look
    by (simp add: p try_top_average_def top_average_in_range [OF assms(3)])
qed


lemma ais_returns:
  assumes "rows_fit dt V" and "n < 2 ^ 63"
  shows "\<exists>M. aggregate_item_similarity dt V n verbose =
               Inr (M, if verbose then [Ctr_one_report 0, Ctr_none_report 0] else [])"
proof -
  have "\<forall>p \<in> set (upper_pairs (length dt)). fst p < length dt \<and> snd p < length dt"
    by (auto simp: upper_pairs_set)
  then show ?thesis
    by (simp add: aggregate_item_similarity_def Let_def ais_loop_fold [OF assms(1) _ assms(2)])
qed



lemma top_avg_empty: "top_avg n [] = NaN"
  by (simp add: top_average_def top_avg_def tail_slice_def np_average_def)


text \<open>
  Claim C1.  With \<^verbatim>\<open>n_similarities=2\<close>, for every similarity matrix that has a
  row and a column for each constituent, every item-to-construct grouping and
  every pair of positions \<open>i < j\<close> of the sorted construct identifiers, the call
  returns a matrix whose upper-triangle entry \<open>(i, j)\<close> is the arithmetic mean of
  the two highest similarity values of the full cross-product of the two
  constructs' constituents.  Where the cross-product holds a single value the
  entry is that value, and where it is empty the entry is 0.
\<close>

theorem aggregate_construct_similarity_top2:
  assumes "covers S (length gold_items)" and "i < j" and "j < length variable_ids"
  shows "\<exists>R. aggregate_construct_similarity S gold_items variable_ids 2 = Inr R \<and>
           (let vs = pair_values S gold_items (sort variable_ids) i j
            in (2 \<le> length vs \<longrightarrow> R ! i ! j = top2_mean vs)
             \<and> (length vs = 1 \<longrightarrow> R ! i ! j = hd vs)
             \<and> (vs = [] \<longrightarrow> R ! i ! j = 0))"
proof -
  let ?vs = "pair_values S gold_items (sort variable_ids) i j"
  obtain R where R: "aggregate_construct_similarity S gold_items variable_ids 2 = Inr R"
    and e: "R ! i ! j = (case top_avg 2 ?vs of Finite r \<Rightarrow> r | NaN \<Rightarrow> 0)"
    using acs_entry [OF assms, of 2] by auto
  have a: "2 \<le> length ?vs \<longrightarrow> R ! i ! j = top2_mean ?vs"
    using e by (simp add: top_average_two)
  have "length ?vs = 1 \<longrightarrow> top_avg 2 ?vs = Finite (hd ?vs)"
    by (cases ?vs) (auto simp: top_average_def top_avg_def tail_slice_def np_average_def)
  then have b: "length ?vs = 1 \<longrightarrow> R ! i ! j = hd ?vs"
    using e by simp
  have c: "?vs = [] \<longrightarrow> R ! i ! j = 0"
    using e by (simp add: top_avg_empty)
  show ?thesis using R a b c by (simp add: Let_def)
qed


text \<open>
  The example of the specification: constituents 0 and 1 belong to construct 1,
  constituent 2 to construct 2, with similarities 0.5 and 0.9 to it; the
  aggregated similarity of the two constructs is 0.7.
\<close>

theorem aggregate_construct_similarity_top2_witness:
  "\<exists>R. aggregate_construct_similarity [[1, 3/10, 1/2], [3/10, 1, 9/10], [1/2, 9/10, 1]] [1, 1, 2] [1, 2] 2 = Inr R
      \<and> R ! 0 ! 1 = 7/10"
  using aggregate_construct_similarity_top2 [of "[[1, 3/10, 1/2], [3/10, 1, 9/10], [1/2, 9/10, 1]]" "[1, 1, 2]" 0 1 "[1, 2]"]
  by (auto simp add: covers_def pair_values_def np_where_eq_def index_pairs_def top2_mean_def Let_def upt_rec)



text \<open>
  What \<^verbatim>\<open>aggregate_item_similarity\<close> does on an empty cross-product: the second
  document has no term, the average of the empty slice is NaN, the handler is
  not entered, both counters stay 0, and the NaN is mirrored into the result.
\<close>

lemma aggregate_item_similarity_empty_cross_product:
  "aggregate_item_similarity [[1, 0], [0, 0]] [[1, 0], [0, 1]] 2 True
     = Inr ([[Finite 1, NaN], [NaN, Finite 1]], [Ctr_one_report 0, Ctr_none_report 0])"
  by (simp add: aggregate_item_similarity_def upper_pairs_def nonzero_indices_def index_pairs_def
      try_top_average_def top_average_def top_avg_def tail_slice_def np_average_def set_cell_def
      mirror_fill_def np_add_def gram_def Let_def upt_rec)

section \<open>Properties of \<^verbatim>\<open>recreate_construct_identity_gold\<close>\<close>

lemma label_pos_Some: "label_pos ls v = Some k \<Longrightarrow> k < length ls \<and> ls ! k = v"
  by (induction ls arbitrary: k) (auto split: if_splits)

lemma label_pos_mem: "v \<in> set ls \<Longrightarrow> \<exists>k. label_pos ls v = Some k"
  by (induction ls) auto

lemma upper_binary_zeros: "upper_binary labels (zeros2 (length labels) (length labels))"
  by (simp add: upper_binary_def square_def zeros2_def zeros_def list_all_iff)

lemma upper_binary_df_set:
  assumes "upper_binary labels M" and "lo \<le> hi" and "df_set labels M hi lo = Inr M'"
  shows "upper_binary labels M'"
proof (cases "label_pos labels lo")
  case None
  then show ?thesis using assms by (auto simp: df_set_def split: option.splits)
next
  case (Some r)
  then obtain c where c: "label_pos labels hi = Some c" and M': "M' = set_cell M r c 1"
    using assms(3) by (auto simp: df_set_def split: option.splits)
  have r: "r < length labels" "labels ! r = lo" using label_pos_Some [OF Some] by simp_all
  have cc: "c < length labels" "labels ! c = hi" using label_pos_Some [OF c] by simp_all
  have sq: "square (length labels) M" using assms(1) by (simp add: upper_binary_def)
  have "square (length labels) M'" using sq by (simp add: M' square_set_cell)
  moreover have "(M' ! i ! j = 0 \<or> M' ! i ! j = 1) \<and> (M' ! i ! j = 1 \<longrightarrow> labels ! i \<le> labels ! j)"
    if "i < length labels" "j < length labels" for i j
    using assms(1,2) that r cc set_cell_nth [OF sq that, of r c 1]
    by (auto simp: M' upper_binary_def)
  ultimately show ?thesis by (simp add: upper_binary_def)
qed

lemma upper_binary_rcig_pool:
  "upper_binary labels M \<Longrightarrow> rcig_pool labels ps M = Inr M' \<Longrightarrow> upper_binary labels M'"
proof (induction ps arbitrary: M)
  case Nil
  then show ?case by simp
next
  case (Cons p ps)
  obtain a b where p: "p = (a, b)" by (cases p)
  obtain M1 where M1: "df_set labels M (max a b) (min a b) = Inr M1"
    and rest: "rcig_pool labels ps M1 = Inr M'"
    using Cons.prems(2) by (auto simp: p split: sum.splits)
  have "upper_binary labels M1"
    by (rule upper_binary_df_set [OF Cons.prems(1) _ M1]) simp
  then show ?case using Cons.IH rest by blast
qed

lemma upper_binary_rcig_pools:
  "upper_binary labels M \<Longrightarrow> rcig_pools gs labels pids M = Inr M' \<Longrightarrow> upper_binary labels M'"
proof (induction pids arbitrary: M)
  case Nil
  then show ?case by simp
next
  case (Cons pid pids)
  obtain M1 where M1: "rcig_pool labels (pool_pairs (pool_members gs pid)) M = Inr M1"
    and rest: "rcig_pools gs labels pids M1 = Inr M'"
    using Cons.prems(2) by (auto split: sum.splits)
  have "upper_binary labels M1"
    by (rule upper_binary_rcig_pool [OF Cons.prems(1) M1])
  then show ?case using Cons.IH rest by blast
qed

lemma mirror_diag_ok:
  assumes "upper_binary labels U" and "distinct labels"
  shows "identity_matrix_ok (length labels) (mirror_diag U)"
proof -
  let ?n = "length labels"
  have len: "length U = ?n" using assms(1) by (simp add: upper_binary_def square_def)
  have nth: "mirror_diag U ! i ! j = (if i = j then 1 else U ! i ! j + U ! j ! i)"
    if "i < ?n" "j < ?n" for i j
    using that len by (simp add: mirror_diag_def)
  have sq: "square ?n (mirror_diag U)"
    using len by (simp add: square_def mirror_diag_def list_all_iff)
  have bin: "mirror_diag U ! i ! j = 0 \<or> mirror_diag U ! i ! j = 1"
    if ij: "i < ?n" "j < ?n" for i j
  proof (cases "i = j")
    case True
    then show ?thesis using nth [OF ij] by simp
  next
    case False
    have a: "(U ! i ! j = 0 \<or> U ! i ! j = 1) \<and> (U ! i ! j = 1 \<longrightarrow> labels ! i \<le> labels ! j)"
      using assms(1) ij by (simp add: upper_binary_def)
    have b: "(U ! j ! i = 0 \<or> U ! j ! i = 1) \<and> (U ! j ! i = 1 \<longrightarrow> labels ! j \<le> labels ! i)"
      using assms(1) ij by (simp add: upper_binary_def)
    have "\<not> (U ! i ! j = 1 \<and> U ! j ! i = 1)"
    proof
      assume "U ! i ! j = 1 \<and> U ! j ! i = 1"
      then have "labels ! i = labels ! j" using a b by auto
      then have "i = j" using assms(2) ij by (simp add: nth_eq_iff_index_eq)
      then show False using False by simp
    qed
    then show ?thesis using a b nth [OF ij] False by auto
  qed
  have sym: "mirror_diag U ! i ! j = mirror_diag U ! j ! i" if ij: "i < ?n" "j < ?n" for i j
    using nth [OF ij] nth [OF ij(2) ij(1)] by auto
  have diag: "mirror_diag U ! i ! i = 1" if "i < ?n" for i
    using nth [OF that that] by simp
  show ?thesis
    using sq bin sym diag by (simp add: identity_matrix_ok_def)
qed

lemma distinct_pooled: "distinct (pooled_variable_ids gs pool_ids)"
  by (simp add: pooled_variable_ids_def)

lemma pool_member_pooled:
  "pid \<in> set pool_ids \<Longrightarrow> v \<in> set (pool_members gs pid) \<Longrightarrow> v \<in> set (pooled_variable_ids gs pool_ids)"
  by (auto simp: pool_members_def pooled_variable_ids_def)

lemma df_set_total:
  "hi \<in> set labels \<Longrightarrow> \<exists>M'. df_set labels M hi lo = Inr M'"
  using label_pos_mem [of hi labels] by (auto simp: df_set_def split: option.splits)

lemma rcig_pool_total:
  assumes "\<forall>p \<in> set ps. fst p \<in> set labels \<and> snd p \<in> set labels"
  shows "\<exists>M'. rcig_pool labels ps M = Inr M'"
  using assms
proof (induction ps arbitrary: M)
  case Nil
  then show ?case by simp
next
  case (Cons p ps)
  obtain a b where p: "p = (a, b)" by (cases p)
  have "max a b \<in> set labels" using Cons.prems by (auto simp: p max_def)
  then obtain M1 where "df_set labels M (max a b) (min a b) = Inr M1"
    using df_set_total by blast
  then show ?case using Cons.IH [of M1] Cons.prems by (simp add: p)
qed

lemma pool_pairs_members:
  "p \<in> set (pool_pairs vs) \<Longrightarrow> fst p \<in> set vs \<and> snd p \<in> set vs"
  by (auto simp: pool_pairs_def upper_pairs_set)

lemma rcig_pools_total:
  assumes "\<forall>pid \<in> set pids. \<forall>v \<in> set (pool_members gs pid). v \<in> set labels"
  shows "\<exists>M'. rcig_pools gs labels pids M = Inr M'"
  using assms
proof (induction pids arbitrary: M)
  case Nil
  then show ?case by simp
next
  case (Cons pid pids)
  have "\<forall>p \<in> set (pool_pairs (pool_members gs pid)). fst p \<in> set labels \<and> snd p \<in> set labels"
    using Cons.prems pool_pairs_members by fastforce
  then obtain M1 where "rcig_pool labels (pool_pairs (pool_members gs pid)) M = Inr M1"
    using rcig_pool_total by blast
  then show ?case using Cons.IH [of M1] Cons.prems by simp
qed

text \<open>
  Claim C6.  For every gold standard and pool list, whenever
  \<^verbatim>\<open>recreate_construct_identity_gold\<close> returns (with \<^verbatim>\<open>full_var_ids\<close> omitted, or
  given as a list of distinct identifiers), the returned matrix is square,
  every entry of it is 0 or 1, it is symmetric, and its diagonal is all 1.
  With \<^verbatim>\<open>full_var_ids\<close> omitted the call always returns.
\<close>

theorem recreate_construct_identity_gold_matrix:
  assumes "case full_var_ids of None \<Rightarrow> True | Some ids \<Rightarrow> distinct ids"
  shows "(full_var_ids = None \<longrightarrow>
            (\<exists>ids G. recreate_construct_identity_gold gs pool_ids full_var_ids = Inr (ids, G)))
       \<and> (\<forall>ids G. recreate_construct_identity_gold gs pool_ids full_var_ids = Inr (ids, G) \<longrightarrow>
            identity_matrix_ok (length ids) G)"
proof (intro conjI impI allI)
  assume none: "full_var_ids = None"
  have "\<forall>pid \<in> set pool_ids. \<forall>v \<in> set (pool_members gs pid). v \<in> set (pooled_variable_ids gs pool_ids)"
    using pool_member_pooled by blast
  then obtain U where "rcig_pools gs (pooled_variable_ids gs pool_ids) pool_ids
        (zeros2 (length (pooled_variable_ids gs pool_ids)) (length (pooled_variable_ids gs pool_ids))) = Inr U"
    using rcig_pools_total by blast
  then show "\<exists>ids G. recreate_construct_identity_gold gs pool_ids full_var_ids = Inr (ids, G)"
    by (simp add: recreate_construct_identity_gold_def none)
next
  fix ids G
  assume run: "recreate_construct_identity_gold gs pool_ids full_var_ids = Inr (ids, G)"
  define L where "L = (case full_var_ids of Some v \<Rightarrow> v | None \<Rightarrow> pooled_variable_ids gs pool_ids)"
  have dist: "distinct L"
    using assms by (auto simp: L_def distinct_pooled split: option.splits)
  obtain U where U: "rcig_pools gs L pool_ids (zeros2 (length L) (length L)) = Inr U"
    and res: "ids = L" "G = mirror_diag U"
    using run by (auto simp: recreate_construct_identity_gold_def L_def Let_def split: sum.splits)
  have "upper_binary L U"
    by (rule upper_binary_rcig_pools [OF upper_binary_zeros U])
  then show "identity_matrix_ok (length ids) G"
    using mirror_diag_ok dist res by simp
qed

text \<open>The matrix that the call of \<^verbatim>\<open>test_rcig\<close> in the source computes.\<close>

lemma test_rcig_value:
  "recreate_construct_identity_gold [(1, 1), (1, 3), (2, 4), (2, 7), (2, 8)] [1, 2] None
   = Inr ([1, 3, 4, 7, 8],
          [[1, 1, 0, 0, 0],
           [1, 1, 0, 0, 0],
           [0, 0, 1, 1, 1],
           [0, 0, 1, 1, 1],
           [0, 0, 1, 1, 1]])"
  by (simp add: recreate_construct_identity_gold_def pooled_variable_ids_def pool_members_def
      pool_pairs_def upper_pairs_def df_set_def set_cell_def mirror_diag_def zeros2_def zeros_def
      Let_def upt_rec)

text \<open>
  The claim at the gold standard of the source's own test, with two pools: the
  call returns, and the returned matrix has as many rows as labels, a unit
  diagonal entry, a binary entry and a mirrored pair of entries.
\<close>

theorem recreate_construct_identity_gold_matrix_witness:
  "\<exists>ids G. recreate_construct_identity_gold [(1, 1), (1, 3), (2, 4), (2, 7), (2, 8)] [1, 2] None
              = Inr (ids, G)
      \<and> length G = length ids \<and> G ! 0 ! 0 = 1 \<and> (G ! 0 ! 2 = 0 \<or> G ! 0 ! 2 = 1)
      \<and> G ! 0 ! 1 = G ! 1 ! 0"
proof -
  let ?gs = "[(1, 1), (1, 3), (2, 4), (2, 7), (2, 8)] :: gold_standard"
  note inst = recreate_construct_identity_gold_matrix [of None ?gs "[1, 2]"]
  obtain ids G where run: "recreate_construct_identity_gold ?gs [1, 2] None = Inr (ids, G)"
    using inst by auto
  have ok: "identity_matrix_ok (length ids) G"
    using inst run by simp
  have "length ids = 5"
    using run test_rcig_value by auto
  then have "length G = length ids \<and> G ! 0 ! 0 = 1 \<and> (G ! 0 ! 2 = 0 \<or> G ! 0 ! 2 = 1)
      \<and> G ! 0 ! 1 = G ! 1 ! 0"
    using ok by (simp add: identity_matrix_ok_def square_def)
  then show ?thesis
    using run by blast
qed

section \<open>Properties of \<^verbatim>\<open>parse_text\<close>\<close>

text \<open>
  Lower-casing beyond ASCII: \<^verbatim>\<open>'\xc9'.lower()\<close> is \<^verbatim>\<open>'\xe9'\<close>, while the
  multiplication sign and the sharp s, which have no other case form of one
  character, stay as they are.
\<close>

lemma py_lower_latin1:
  "py_lower [CHR ''C'', CHR ''a'', CHR ''f'', CHR 0xC9] = [CHR ''c'', CHR ''a'', CHR ''f'', CHR 0xE9]
   \<and> py_lower [CHR 0xD7, CHR 0xDF, CHR 0xDE] = [CHR 0xD7, CHR 0xDF, CHR 0xFE]"
  by (simp add: py_lower_def lower_char_def latin1_upper_def latin1_lower_def)

lemma stem_entry_unknown:
  assumes "sel \<noteq> ''porter2''" and "sel \<noteq> ''paicehusk''" and "only_value_errors lib"
  shows "stem_entry lib sel w = Inr (w @ '' '') \<or> stem_entry lib sel w = Inl ValueError"
proof (cases "stem_porter2 lib w")
  case (Raises e)
  then have "e = ValueError" using assms(3) by (simp add: only_value_errors_def)
  then show ?thesis using Raises by (simp add: stem_entry_def)
next
  case a: (Stemmed a)
  show ?thesis
  proof (cases "stem_paicehusk lib w")
    case (Raises e)
    then have "e = ValueError" using assms(3) by (simp add: only_value_errors_def)
    then show ?thesis using a Raises by (simp add: stem_entry_def)
  next
    case (Stemmed b)
    then show ?thesis using a assms(1,2) by (simp add: stem_entry_def dict_get_def)
  qed
qed

lemma parse_words_unknown:
  assumes "stemmer cfg = Some sel" and "sel \<noteq> ''porter2''" and "sel \<noteq> ''paicehusk''"
    and "only_value_errors lib"
  shows "\<exists>P es es0. parse_words lib cfg ws (p, errs) = Inr (P, es)
           \<and> parse_words lib (cfg\<lparr>stemmer := None\<rparr>) ws (p, errs0) = Inr (P, es0)"
proof (induction ws arbitrary: p errs errs0)
  case Nil
  then show ?case by simp
next
  case (Cons w ws)
  show ?case
    using stem_entry_unknown [OF assms(2,3,4), of w] Cons.IH assms(1)
    by auto
qed

lemma clean_doc_stemmer: "clean_doc (cfg\<lparr>stemmer := x\<rparr>) d = clean_doc cfg d"
  by (simp add: clean_doc_def)

lemma pt_loop_unknown:
  assumes "stemmer cfg = Some sel" and "sel \<noteq> ''porter2''" and "sel \<noteq> ''paicehusk''"
    and "only_value_errors lib"
  shows "fst (pt_loop lib cfg ixs (docs, pd, errs)) =
           fst (pt_loop lib (cfg\<lparr>stemmer := None\<rparr>) ixs (docs, pd, errs0))
       \<and> map_sum id fst (snd (pt_loop lib cfg ixs (docs, pd, errs))) =
           map_sum id fst (snd (pt_loop lib (cfg\<lparr>stemmer := None\<rparr>) ixs (docs, pd, errs0)))"
proof (induction ixs arbitrary: docs pd errs errs0)
  case Nil
  then show ?case by simp
next
  case (Cons i ixs)
  show ?case
  proof (cases "docs ! i")
    case NonStr
    then show ?thesis by simp
  next
    case (Str d)
    obtain P es es0 where
      a: "parse_words lib cfg (py_split (clean_doc cfg d)) ([], errs) = Inr (P, es)" and
      b: "parse_words lib (cfg\<lparr>stemmer := None\<rparr>) (py_split (clean_doc cfg d)) ([], errs0) = Inr (P, es0)"
      using parse_words_unknown [OF assms] by blast
    show ?thesis
      using Str a b Cons.IH by (simp add: clean_doc_stemmer)
  qed
qed

lemma parsed_of_parse_text:
  "parsed_of (parse_text lib documents cfg verbose) =
     (fst (pt_loop lib cfg [0 ..< length documents] (documents, [], [])),
      map_sum id (filter (\<lambda>d. d \<noteq> []))
        (map_sum id fst (snd (pt_loop lib cfg [0 ..< length documents] (documents, [], [])))))"
proof (cases "pt_loop lib cfg [0 ..< length documents] (documents, [], [])")
  case (Pair D res)
  then show ?thesis
    by (cases res) (auto simp: parse_text_def parsed_of_def)
qed

text \<open>
  Claim C8.  For every stemmer selector other than \<^verbatim>\<open>'porter2'\<close> and
  \<^verbatim>\<open>'paicehusk'\<close>, \<^verbatim>\<open>parse_text\<close> behaves as it does with \<^verbatim>\<open>stemmer=None\<close>, where
  every token is appended as it is: the same documents are returned, with every
  token unstemmed, and the call raises only where the call without stemming
  raises.  The stemmers, which the source calls whatever the selector is, are
  taken to fail with ValueError only.
\<close>

theorem parse_text_unknown_stemmer:
  assumes "stemmer cfg = Some sel" and "sel \<noteq> ''porter2''" and "sel \<noteq> ''paicehusk''"
    and "only_value_errors lib"
  shows "parsed_of (parse_text lib documents cfg verbose) =
         parsed_of (parse_text lib documents (cfg\<lparr>stemmer := None\<rparr>) verbose)"
  using pt_loop_unknown [OF assms, of "[0 ..< length documents]" documents "[]" "[]" "[]"]
  by (simp add: parsed_of_parse_text)

text \<open>
  The claim at a concrete input: the selector \<^verbatim>\<open>'lovins'\<close>, a stop word, and a
  stemmer that raises ValueError on one of the words.
\<close>

theorem parse_text_unknown_stemmer_witness:
  "parsed_of (parse_text
       \<lparr>stem_porter2 = (\<lambda>w. if w = ''dogs'' then Raises ValueError else Stemmed (take 3 w)),
        stem_paicehusk = (\<lambda>w. Stemmed (take 2 w)),
        ENGLISH_STOP_WORDS = [''the'']\<rparr>
       [Str ''The Running, dogs'']
       \<lparr>stemmer = Some ''lovins'', lower = True, remove_stop_words = True, ignore_chars = '',.''\<rparr>
       False)
   = ([Str ''the running dogs''], Inr [''running dogs''])"
proof -
  let ?lib = "\<lparr>stem_porter2 = (\<lambda>w. if w = ''dogs'' then Raises ValueError else Stemmed (take 3 w)),
               stem_paicehusk = (\<lambda>w. Stemmed (take 2 w)),
               ENGLISH_STOP_WORDS = [''the'']\<rparr>"
  let ?cfg = "\<lparr>stemmer = Some ''lovins'', lower = True, remove_stop_words = True,
               ignore_chars = '',.''\<rparr>"
  have ove: "only_value_errors ?lib"
    by (auto simp: only_value_errors_def split: if_splits)
  have "parsed_of (parse_text ?lib [Str ''The Running, dogs''] ?cfg False) =
        parsed_of (parse_text ?lib [Str ''The Running, dogs''] (?cfg\<lparr>stemmer := None\<rparr>) False)"
    by (rule parse_text_unknown_stemmer [OF _ _ _ ove, of _ "''lovins''"]) simp_all
  also have "\<dots> = ([Str ''the running dogs''], Inr [''running dogs''])"
    by (simp add: parsed_of_def parse_text_def clean_doc_def py_split_def is_space_def
        translate_ignore_def py_lower_def lower_char_def latin1_upper_def latin1_lower_def Let_def)
  finally show ?thesis .
qed

lemma clean_obj_id:
  "ignore_chars cfg = [] \<Longrightarrow> \<not> lower cfg \<Longrightarrow> clean_obj cfg x = x"
  by (cases x) (simp_all add: clean_obj_def clean_doc_def)

lemma pt_loop_documents:
  assumes "length docs = n" and "k \<le> n"
  shows "length (fst (pt_loop lib cfg [k ..< n] (docs, pd, errs))) = n
       \<and> (\<forall>j < n. fst (pt_loop lib cfg [k ..< n] (docs, pd, errs)) ! j = docs ! j
                 \<or> (k \<le> j \<and> fst (pt_loop lib cfg [k ..< n] (docs, pd, errs)) ! j = clean_obj cfg (docs ! j)))
       \<and> (isl (snd (pt_loop lib cfg [k ..< n] (docs, pd, errs))) \<or>
            (\<forall>j < n. k \<le> j \<longrightarrow>
                fst (pt_loop lib cfg [k ..< n] (docs, pd, errs)) ! j = clean_obj cfg (docs ! j)))"
  using assms
proof (induction "n - k" arbitrary: k docs pd errs)
  case 0
  then have "[k ..< n] = []" by simp
  then show ?case using 0 by simp
next
  case (Suc m)
  then have kn: "k < n" by simp
  then have upt: "[k ..< n] = k # [Suc k ..< n]" by (simp add: upt_conv_Cons)
  show ?case
  proof (cases "docs ! k")
    case NonStr
    then show ?thesis using Suc.prems by (simp add: upt)
  next
    case (Str d)
    define docs' where "docs' = docs[k := Str (clean_doc cfg d)]"
    have len': "length docs' = n" using Suc.prems by (simp add: docs'_def)
    have at_k: "docs' ! k = clean_obj cfg (docs ! k)"
      using kn Suc.prems Str by (simp add: docs'_def clean_obj_def)
    have other: "j \<noteq> k \<Longrightarrow> docs' ! j = docs ! j" for j
      by (simp add: docs'_def)
    show ?thesis
    proof (cases "parse_words lib cfg (py_split (clean_doc cfg d)) ([], errs)")
      case (Inl e)
      then have run: "pt_loop lib cfg [k ..< n] (docs, pd, errs) = (docs', Inl e)"
        using Str by (simp add: upt docs'_def Let_def)
      have "docs' ! j = docs ! j \<or> (k \<le> j \<and> docs' ! j = clean_obj cfg (docs ! j))" for j
        by (cases "j = k") (simp_all add: at_k other)
      then show ?thesis
        unfolding run using len' by simp
    next
      case (Inr q)
      obtain p es where q: "q = (p, es)" by (cases q)
      have run: "pt_loop lib cfg [k ..< n] (docs, pd, errs) =
                   pt_loop lib cfg [Suc k ..< n] (docs', pd @ [join_sp (py_split p)], es)"
        using Str Inr by (simp add: upt docs'_def Let_def q)
      have m: "m = n - Suc k" using Suc.hyps(2) by simp
      have sk: "Suc k \<le> n" using kn by simp
      note IH = Suc.hyps(1) [OF m len' sk, of "pd @ [join_sp (py_split p)]" es]
      let ?R = "pt_loop lib cfg [Suc k ..< n] (docs', pd @ [join_sp (py_split p)], es)"
      have a: "length (fst ?R) = n" using IH by simp
      have b: "fst ?R ! j = docs ! j \<or> (k \<le> j \<and> fst ?R ! j = clean_obj cfg (docs ! j))"
        if "j < n" for j
      proof (cases "j = k")
        case True
        have "fst ?R ! k = docs' ! k" using IH kn by auto
        then show ?thesis using True at_k by simp
      next
        case False
        have "fst ?R ! j = docs' ! j \<or> (Suc k \<le> j \<and> fst ?R ! j = clean_obj cfg (docs' ! j))"
          using IH that by blast
        then show ?thesis using other [OF False] by auto
      qed
      have c: "isl (snd ?R) \<or> (\<forall>j < n. k \<le> j \<longrightarrow> fst ?R ! j = clean_obj cfg (docs ! j))"
      proof (cases "isl (snd ?R)")
        case True
        then show ?thesis by simp
      next
        case False
        then have all: "\<forall>j < n. Suc k \<le> j \<longrightarrow> fst ?R ! j = clean_obj cfg (docs' ! j)"
          using IH by blast
        have "fst ?R ! j = clean_obj cfg (docs ! j)" if "j < n" "k \<le> j" for j
        proof (cases "j = k")
          case True
          have "fst ?R ! k = docs' ! k" using IH kn by auto
          then show ?thesis using True at_k by simp
        next
          case False
          then show ?thesis using all that other [OF False] by auto
        qed
        then show ?thesis by blast
      qed
      show ?thesis unfolding run using a b c by blast
    qed
  qed
qed

lemma parse_text_fst:
  "fst (parse_text lib documents cfg verbose) =
     fst (pt_loop lib cfg [0 ..< length documents] (documents, [], []))"
  by (cases "pt_loop lib cfg [0 ..< length documents] (documents, [], [])")
     (auto simp: parse_text_def split: sum.splits)

lemma parse_text_isl:
  "isl (snd (parse_text lib documents cfg verbose)) =
     isl (snd (pt_loop lib cfg [0 ..< length documents] (documents, [], [])))"
  by (cases "pt_loop lib cfg [0 ..< length documents] (documents, [], [])")
     (auto simp: parse_text_def split: sum.splits)

text \<open>
  Claim C9 (as amended).  \<^verbatim>\<open>parse_text\<close> keeps the length and the order of the
  \<^verbatim>\<open>documents\<close> sequence passed to it, and overwrites its elements in place:
  after a call that returns, every element is the cleaned form of its value
  before the call (ignore-characters replaced by spaces and whitespace
  collapsed when \<^verbatim>\<open>ignore_chars\<close> is not empty, lower-cased when \<^verbatim>\<open>lower\<close> is
  set).  The sequence is left as it was when \<^verbatim>\<open>ignore_chars\<close> is empty and
  \<^verbatim>\<open>lower\<close> is false.
\<close>

theorem parse_text_documents_overwritten:
  "length (fst (parse_text lib documents cfg verbose)) = length documents
   \<and> (\<forall>out. snd (parse_text lib documents cfg verbose) = Inr out \<longrightarrow>
          fst (parse_text lib documents cfg verbose) = map (clean_obj cfg) documents)
   \<and> (ignore_chars cfg = [] \<and> \<not> lower cfg \<longrightarrow>
          fst (parse_text lib documents cfg verbose) = documents)"
proof -
  let ?R = "pt_loop lib cfg [0 ..< length documents] (documents, [], [])"
  note inv = pt_loop_documents [of documents "length documents" 0 lib cfg "[]" "[]"]
  have len: "length (fst ?R) = length documents" using inv by simp
  have a: "fst ?R = map (clean_obj cfg) documents" if "\<not> isl (snd ?R)"
  proof -
    have "\<forall>j < length documents. fst ?R ! j = clean_obj cfg (documents ! j)"
      using inv that by auto
    then show ?thesis
      using len by (intro nth_equalityI) simp_all
  qed
  have b: "fst ?R = documents" if "ignore_chars cfg = []" "\<not> lower cfg"
  proof -
    have "\<forall>j < length documents. fst ?R ! j = documents ! j"
      using inv clean_obj_id [OF that] by auto
    then show ?thesis using len by (intro nth_equalityI) simp_all
  qed
  have c: "\<not> isl (snd ?R)" if "snd (parse_text lib documents cfg verbose) = Inr out" for out
    using that parse_text_isl [of lib documents cfg verbose] by simp
  show ?thesis
    using len a b c by (auto simp: parse_text_fst)
qed

text \<open>
  The amended claim at a concrete document, once with the default cleaning and
  once with the cleaning switched off.
\<close>

theorem parse_text_documents_overwritten_witness:
  "fst (parse_text
       \<lparr>stem_porter2 = (\<lambda>w. Stemmed w), stem_paicehusk = (\<lambda>w. Stemmed w), ENGLISH_STOP_WORDS = []\<rparr>
       [Str ''Yes, Sir'']
       \<lparr>stemmer = None, lower = True, remove_stop_words = True, ignore_chars = '',.''\<rparr>
       False)
     = map (clean_obj \<lparr>stemmer = None, lower = True, remove_stop_words = True, ignore_chars = '',.''\<rparr>)
         [Str ''Yes, Sir'']
   \<and> fst (parse_text
       \<lparr>stem_porter2 = (\<lambda>w. Stemmed w), stem_paicehusk = (\<lambda>w. Stemmed w), ENGLISH_STOP_WORDS = []\<rparr>
       [Str ''Yes, Sir'']
       \<lparr>stemmer = None, lower = False, remove_stop_words = True, ignore_chars = []\<rparr>
       False)
     = [Str ''Yes, Sir'']"
proof -
  let ?lib = "\<lparr>stem_porter2 = (\<lambda>w. Stemmed w), stem_paicehusk = (\<lambda>w. Stemmed w),
               ENGLISH_STOP_WORDS = []\<rparr>"
  let ?A = "\<lparr>stemmer = None, lower = True, remove_stop_words = True, ignore_chars = '',.''\<rparr>"
  let ?B = "\<lparr>stemmer = None, lower = False, remove_stop_words = True, ignore_chars = []\<rparr>"
  have ret: "snd (parse_text ?lib [Str ''Yes, Sir''] ?A False) = Inr ([''yes sir''], [])"
    by (simp add: parse_text_def clean_doc_def py_split_def is_space_def translate_ignore_def
        py_lower_def lower_char_def latin1_upper_def latin1_lower_def Let_def)
  have first: "fst (parse_text ?lib [Str ''Yes, Sir''] ?A False) = map (clean_obj ?A) [Str ''Yes, Sir'']"
    using parse_text_documents_overwritten [of ?lib "[Str ''Yes, Sir'']" ?A False] ret by blast
  have second: "fst (parse_text ?lib [Str ''Yes, Sir''] ?B False) = [Str ''Yes, Sir'']"
    using parse_text_documents_overwritten [of ?lib "[Str ''Yes, Sir'']" ?B False] by simp
  show ?thesis
    using first second by simp
qed

text \<open>
  Claim C9 as stated fails: with the default \<^verbatim>\<open>lower=True\<close> and two
  ignore-characters, the caller's list holds a different string after the
  call.
\<close>

theorem parse_text_mutates_documents:
  "fst (parse_text
       \<lparr>stem_porter2 = (\<lambda>w. Stemmed w), stem_paicehusk = (\<lambda>w. Stemmed w), ENGLISH_STOP_WORDS = []\<rparr>
       [Str ''Yes, Sir'']
       \<lparr>stemmer = None, lower = True, remove_stop_words = True, ignore_chars = '',.''\<rparr>
       False)
   = [Str ''yes sir'']
   \<and> [Str ''yes sir''] \<noteq> [Str ''Yes, Sir'']"
  by (simp add: parse_text_def clean_doc_def py_split_def is_space_def translate_ignore_def
      py_lower_def lower_char_def latin1_upper_def latin1_lower_def Let_def)

section \<open>Properties of \<^verbatim>\<open>document_term_cooccurrence\<close>\<close>

lemma map2_replicate:
  "length xs = n \<Longrightarrow> map2 f xs (replicate n v) = map (\<lambda>x. f x v) xs"
  by (induction xs arbitrary: n) auto

lemma map2_same_length:
  "length xs = length ys \<Longrightarrow> map2 f xs ys = map (\<lambda>j. f (xs ! j) (ys ! j)) [0 ..< length xs]"
  by (intro nth_equalityI) simp_all

lemma rect_nth: "rect m A \<Longrightarrow> d < length A \<Longrightarrow> length (A ! d) = m"
  by (simp add: rect_def list_all_length)

lemma rect_mem: "rect m A \<Longrightarrow> r \<in> set A \<Longrightarrow> length r = m"
  by (simp add: rect_def list_all_iff)

lemma ncols_rect: "rect m A \<Longrightarrow> A \<noteq> [] \<Longrightarrow> ncols A = m"
  by (cases A) (simp_all add: ncols_def rect_def)

lemma rect_to_real: "rect m C \<Longrightarrow> rect m (to_real C)"
  by (simp add: rect_def to_real_def list_all_iff)

lemma col_sums_rect:
  assumes "rect m A" and "A \<noteq> []"
  shows "col_sums A = map (\<lambda>j. sum_list (map (\<lambda>r. r ! j) A)) [0 ..< m]"
  using ncols_rect [OF assms] by (simp add: col_sums_def)

text \<open>Row-wise closed form of a matrix divided or multiplied by a tiled row vector.\<close>

lemma mat_div_tile:
  assumes "rect m A" and "length v = m"
  shows "mat_div A (tile v (length A)) = map (\<lambda>r. map (\<lambda>j. r ! j / v ! j) [0 ..< m]) A"
proof -
  have "mat_div A (tile v (length A)) = map (\<lambda>r. map2 (/) r v) A"
    by (simp add: mat_div_def tile_def map2_replicate)
  also have "\<dots> = map (\<lambda>r. map (\<lambda>j. r ! j / v ! j) [0 ..< m]) A"
    using assms by (intro map_cong refl) (simp add: map2_same_length rect_mem)
  finally show ?thesis .
qed

lemma mat_mul_tile:
  assumes "rect m A" and "length v = m"
  shows "mat_mul A (tile v (length A)) = map (\<lambda>r. map (\<lambda>j. r ! j * v ! j) [0 ..< m]) A"
proof -
  have "mat_mul A (tile v (length A)) = map (\<lambda>r. map2 (*) r v) A"
    by (simp add: mat_mul_def tile_def map2_replicate)
  also have "\<dots> = map (\<lambda>r. map (\<lambda>j. r ! j * v ! j) [0 ..< m]) A"
    using assms by (intro map_cong refl) (simp add: map2_same_length rect_mem)
  finally show ?thesis .
qed

lemma mat_mul_maps:
  "mat_mul (map f A) (map g A) = map (\<lambda>r. map2 (*) (f r) (g r)) A"
  by (induction A) (simp_all add: mat_mul_def)

lemma to_real_rows: "to_real C = map (map real) C"
  by (simp add: to_real_def)

lemma col_sums_to_real:
  assumes "rect m C" and "C \<noteq> []"
  shows "col_sums (to_real C) = map (column_total C) [0 ..< m]"
proof -
  have ne: "to_real C \<noteq> []" using assms(2) by (simp add: to_real_def)
  have "sum_list (map (\<lambda>r. r ! j) (to_real C)) = column_total C j" if "j < m" for j
  proof -
    have "map (\<lambda>r. r ! j) (to_real C) = map (\<lambda>row. real (row ! j)) C"
      using that assms(1) by (simp add: to_real_def rect_mem)
    then show ?thesis by (simp add: column_total_def)
  qed
  then show ?thesis
    using col_sums_rect [OF rect_to_real [OF assms(1)] ne] by simp
qed

lemma p_matrix_closed:
  assumes "rect m C" and "C \<noteq> []"
  shows "mat_div (to_real C) (tile (col_sums (to_real C)) (length (to_real C)))
         = map (\<lambda>row. map (share C row) [0 ..< m]) C"
proof -
  have "mat_div (to_real C) (tile (col_sums (to_real C)) (length (to_real C)))
        = map (\<lambda>r. map (\<lambda>j. r ! j / col_sums (to_real C) ! j) [0 ..< m]) (to_real C)"
    by (rule mat_div_tile [OF rect_to_real [OF assms(1)]])
       (simp add: col_sums_to_real [OF assms])
  also have "\<dots> = map (\<lambda>row. map (share C row) [0 ..< m]) C"
    unfolding col_sums_to_real [OF assms] using assms(1)
    by (simp add: to_real_def share_def rect_mem)
  finally show ?thesis .
qed

lemma weighted_closed:
  assumes "rect m C" and "C \<noteq> []"
    and P: "P = map (\<lambda>row. map (share C row) [0 ..< m]) C"
  shows "mat_mul (to_real C)
           (mat_mul (map (map (\<lambda>c. ln (c + 1))) (to_real C))
              (tile (map (\<lambda>s. 1 + s / ln (real (length (to_real C)) + 1))
                       (col_sums (mat_mul P (map (map f) P)))) (length (to_real C))))
         = map (\<lambda>row. map (\<lambda>j. real (row ! j) *
                 (ln (real (row ! j) + 1) *
                   (1 + sum_list (map (\<lambda>q. share C q j * f (share C q j)) C)
                        / ln (real (length C) + 1)))) [0 ..< m]) C"
proof -
  let ?n = "length (to_real C)"
  have n: "?n = length C" by (simp add: to_real_def)
  let ?PL = "mat_mul P (map (map f) P)"
  have "map (map f) P = map (\<lambda>row. map f (map (share C row) [0 ..< m])) C"
    unfolding P by simp
  then have "?PL = map (\<lambda>row. map2 (*) (map (share C row) [0 ..< m])
                                   (map f (map (share C row) [0 ..< m]))) C"
    unfolding P by (simp only: mat_mul_maps)
  also have "\<dots> = map (\<lambda>row. map (\<lambda>j. share C row j * f (share C row j)) [0 ..< m]) C"
    by (simp add: map2_same_length)
  finally have PL: "?PL = map (\<lambda>row. map (\<lambda>j. share C row j * f (share C row j)) [0 ..< m]) C" .
  have rectPL: "rect m ?PL" by (simp add: PL rect_def list_all_iff)
  have nePL: "?PL \<noteq> []" using assms(2) by (simp add: PL)
  have sums: "col_sums ?PL = map (\<lambda>j. sum_list (map (\<lambda>q. share C q j * f (share C q j)) C)) [0 ..< m]"
  proof -
    have "sum_list (map (\<lambda>r. r ! j) ?PL) = sum_list (map (\<lambda>q. share C q j * f (share C q j)) C)"
      if "j < m" for j
      using that by (simp add: PL comp_def)
    then show ?thesis using col_sums_rect [OF rectPL nePL] by simp
  qed
  define g where "g = map (\<lambda>s. 1 + s / ln (real ?n + 1)) (col_sums ?PL)"
  have glen: "length g = m" by (simp add: g_def sums)
  have gnth: "g ! j = 1 + sum_list (map (\<lambda>q. share C q j * f (share C q j)) C)
                          / ln (real (length C) + 1)" if "j < m" for j
    using that by (simp add: g_def sums n)
  define H where "H = (\<lambda>row :: nat list. map (\<lambda>c. ln (c + 1)) (map real row))"
  let ?local = "map (map (\<lambda>c. ln (c + 1))) (to_real C)"
  have local: "?local = map H C" by (simp add: to_real_def H_def)
  have rect_local: "rect m (map H C)"
    using assms(1) by (simp add: rect_def H_def list_all_iff)
  have "mat_mul (map H C) (tile g (length (map H C)))
          = map (\<lambda>r. map (\<lambda>j. r ! j * g ! j) [0 ..< m]) (map H C)"
    by (rule mat_mul_tile [OF rect_local glen])
  then have final: "mat_mul ?local (tile g ?n) = map (\<lambda>row. map (\<lambda>j. H row ! j * g ! j) [0 ..< m]) C"
    by (simp add: local n comp_def)
  have "mat_mul (to_real C) (mat_mul ?local (tile g ?n))
        = mat_mul (to_real C) (map (\<lambda>row. map (\<lambda>j. H row ! j * g ! j) [0 ..< m]) C)"
    by (simp only: final)
  also have "\<dots> = map (\<lambda>row. map2 (*) (map real row) (map (\<lambda>j. H row ! j * g ! j) [0 ..< m])) C"
    by (simp only: to_real_rows mat_mul_maps)
  also have "\<dots> = map (\<lambda>row. map (\<lambda>j. real (row ! j) *
                 (ln (real (row ! j) + 1) *
                   (1 + sum_list (map (\<lambda>q. share C q j * f (share C q j)) C)
                        / ln (real (length C) + 1)))) [0 ..< m]) C"
    using assms(1)
    by (intro map_cong refl) (simp add: map2_same_length rect_mem gnth H_def)
  finally show ?thesis
    by (simp only: g_def)
qed

lemma log_neginf_zero_ln: "log_neginf_zero x = ln x"
  by (simp add: log_neginf_zero_def)

lemma map_rows_index:
  assumes "rect m C"
  shows "map (\<lambda>row. map (F row) [0 ..< m]) C
         = map (\<lambda>d. map (F (C ! d)) [0 ..< length (C ! d)]) [0 ..< length C]"
  using assms by (intro nth_equalityI) (simp_all add: rect_nth)

lemma dt_matrix_log_cells:
  assumes "rect m C" and "C \<noteq> []"
  shows "dt_matrix_log C = log_entropy_cells C"
proof -
  have "dt_matrix_log C =
          map (\<lambda>row. map (\<lambda>j. real (row ! j) *
                 (ln (real (row ! j) + 1) *
                   (1 + sum_list (map (\<lambda>q. share C q j * ln (share C q j + 1)) C)
                        / ln (real (length C) + 1)))) [0 ..< m]) C"
    using weighted_closed [OF assms refl, of "\<lambda>p. ln (p + 1)"]
    by (simp add: dt_matrix_log_def Let_def p_matrix_closed [OF assms] log_neginf_zero_ln comp_def)
  also have "\<dots> = map (\<lambda>d. map (\<lambda>j. real (C ! d ! j) *
                 (ln (real (C ! d ! j) + 1) *
                   (1 + sum_list (map (\<lambda>q. share C q j * ln (share C q j + 1)) C)
                        / ln (real (length C) + 1)))) [0 ..< length (C ! d)]) [0 ..< length C]"
    by (rule map_rows_index [OF assms(1)])
  also have "\<dots> = log_entropy_cells C"
    by (simp add: log_entropy_cells_def log_entropy_cell_def global_weight_def share_def mult.assoc)
  finally show ?thesis .
qed

lemma share_zero: "row ! t = 0 \<Longrightarrow> share C row t = 0"
  by (simp add: share_def)

lemma dt_matrix_log_myLSA_cells:
  assumes "rect m C" and "C \<noteq> []"
  shows "dt_matrix_log_myLSA C = log_entropy_cells_myLSA C"
proof -
  have tm: "share C q j * ln (share C q j)
              = (if q ! j = 0 then 0 else (real (q ! j) / column_total C j) * ln (real (q ! j) / column_total C j))"
    for q j
    by (simp add: share_def)
  have "dt_matrix_log_myLSA C =
          map (\<lambda>row. map (\<lambda>j. real (row ! j) *
                 (ln (real (row ! j) + 1) *
                   (1 + sum_list (map (\<lambda>q. share C q j * ln (share C q j)) C)
                        / ln (real (length C) + 1)))) [0 ..< m]) C"
    using weighted_closed [OF assms refl, of ln]
    by (simp add: dt_matrix_log_myLSA_def Let_def p_matrix_closed [OF assms] log_neginf_zero_ln [abs_def])
  also have "\<dots> = map (\<lambda>d. map (\<lambda>j. real (C ! d ! j) *
                 (ln (real (C ! d ! j) + 1) *
                   (1 + sum_list (map (\<lambda>q. share C q j * ln (share C q j)) C)
                        / ln (real (length C) + 1)))) [0 ..< length (C ! d)]) [0 ..< length C]"
    by (rule map_rows_index [OF assms(1)])
  also have "\<dots> = log_entropy_cells_myLSA C"
    by (simp add: log_entropy_cells_myLSA_def global_weight_myLSA_def tm mult.assoc)
  finally show ?thesis .
qed

lemma rect_count_matrix: "rect (length terms) (count_matrix corpus terms)"
  by (simp add: rect_def count_matrix_def list_all_iff)

lemma length_count_matrix: "length (count_matrix corpus terms) = length corpus"
  by (simp add: count_matrix_def)

lemma fit_vocabulary_Inr:
  assumes "fit_vocabulary corpus = Inr terms"
  shows "terms = sort (remdups (concat (map tokenize corpus)))" and "terms \<noteq> []" and "corpus \<noteq> []"
proof -
  show t: "terms = sort (remdups (concat (map tokenize corpus)))" and ne: "terms \<noteq> []"
    using assms by (auto simp: fit_vocabulary_def Let_def split: if_splits)
  show "corpus \<noteq> []"
  proof
    assume "corpus = []"
    then have "terms = []" using t by simp
    then show False using ne by simp
  qed
qed

lemma dtc_cases:
  assumes "document_term_cooccurrence corpus processing = Inr (M, terms)"
  shows "fit_vocabulary corpus = Inr terms"
    and "processing = ''count'' \<Longrightarrow> M = to_real (count_matrix corpus terms)"
    and "processing = ''l2'' \<Longrightarrow> M = Normalizer_l2 (to_real (count_matrix corpus terms))"
    and "processing = ''tfidf_l2'' \<Longrightarrow> M = Normalizer_l2 (dt_matrix_tfidf (count_matrix corpus terms))"
    and "processing = ''log_l2'' \<Longrightarrow> M = Normalizer_l2 (dt_matrix_log (count_matrix corpus terms))"
  using assms
  by (auto simp: document_term_cooccurrence_def Let_def split: sum.splits if_splits)

text \<open>
  Claim C4 (as amended).  For mode \<^verbatim>\<open>'log_l2'\<close>, \<^verbatim>\<open>document_term_cooccurrence\<close>
  returns the L2 row normalisation of the matrix whose cells are
  \<open>count * ln (count + 1) * (1 + (\<Sum>doc. p * ln (p + 1)) / ln (n_docs + 1))\<close> with
  \<open>p = count / column_total\<close>.  The module-level weighting of myLSA.py computes,
  on a rectangular non-empty count matrix, the L2 row normalisation of the
  cells with \<open>p * ln p\<close> in the place of \<open>p * ln (p + 1)\<close>, zero counts
  contributing 0.
\<close>

theorem log_entropy_formulas:
  "(\<forall>M terms. document_term_cooccurrence corpus ''log_l2'' = Inr (M, terms) \<longrightarrow>
       M = Normalizer_l2 (log_entropy_cells (count_matrix corpus terms)))
   \<and> (rect m C \<and> C \<noteq> [] \<longrightarrow>
       dt_matrix_log_l2_myLSA C = Normalizer_l2 (log_entropy_cells_myLSA C))"
proof (intro conjI allI impI)
  fix M terms
  assume run: "document_term_cooccurrence corpus ''log_l2'' = Inr (M, terms)"
  have voc: "fit_vocabulary corpus = Inr terms" by (rule dtc_cases(1) [OF run])
  have ne: "count_matrix corpus terms \<noteq> []"
    using fit_vocabulary_Inr(3) [OF voc] by (simp add: count_matrix_def)
  show "M = Normalizer_l2 (log_entropy_cells (count_matrix corpus terms))"
    using dtc_cases(5) [OF run] dt_matrix_log_cells [OF rect_count_matrix ne] by simp
next
  assume "rect m C \<and> C \<noteq> []"
  then show "dt_matrix_log_l2_myLSA C = Normalizer_l2 (log_entropy_cells_myLSA C)"
    using dt_matrix_log_myLSA_cells [of m C] by (simp add: dt_matrix_log_l2_myLSA_def)
qed

lemma dt_matrix_log_example:
  "dt_matrix_log [[1, 1], [1, 0]] =
     [[ln 2 * (1 + ln (3 / 2) / ln 3), ln 2 * (1 + ln 2 / ln 3)],
      [ln 2 * (1 + ln (3 / 2) / ln 3), 0]]"
  by (simp add: dt_matrix_log_def to_real_def mat_mul_def mat_div_def tile_def col_sums_def ncols_def
      log_neginf_zero_def Let_def upt_rec)

lemma dt_matrix_log_myLSA_example:
  "dt_matrix_log_myLSA [[1, 1], [1, 0]] =
     [[ln 2 * (1 + ln (1 / 2) / ln 3), ln 2],
      [ln 2 * (1 + ln (1 / 2) / ln 3), 0]]"
  by (simp add: dt_matrix_log_myLSA_def to_real_def mat_mul_def mat_div_def tile_def col_sums_def ncols_def
      log_neginf_zero_def Let_def upt_rec)

lemma l2_norm_pair: "l2_norm [a, b] = sqrt (a * a + b * b)"
  by (simp add: l2_norm_def)

lemma l2_norm_pair_pos: "0 < b \<Longrightarrow> 0 < l2_norm [a, b]"
proof -
  assume "0 < b"
  then have "0 < b * b" by simp
  moreover have "0 \<le> a * a" by simp
  ultimately have "0 < a * a + b * b" by linarith
  then show ?thesis by (simp add: l2_norm_pair)
qed

lemma normalize_row_pair_neq:
  assumes "a * d \<noteq> b * c" and "0 < b" and "0 < d"
  shows "normalize_row [a, b] \<noteq> normalize_row [c, d]"
proof
  assume eq: "normalize_row [a, b] = normalize_row [c, d]"
  define N where "N = l2_norm [a, b]"
  define N' where "N' = l2_norm [c, d]"
  have N: "0 < N" and N': "0 < N'"
    using assms(2,3) by (simp_all add: N_def N'_def l2_norm_pair_pos)
  have "[a / N, b / N] = [c / N', d / N']"
    using eq N N' by (simp add: normalize_row_def N_def [symmetric] N'_def [symmetric])
  then have 1: "a * N' = c * N" and 2: "b * N' = d * N"
    using N N' by (simp_all add: field_simps)
  have "a * d * N = a * (b * N')" using 2 by simp
  also have "\<dots> = b * (a * N')" by simp
  also have "\<dots> = b * c * N" using 1 by simp
  finally have "a * d = b * c" using N by simp
  then show False using assms(1) by simp
qed

lemma log_entropy_rows_differ:
  "normalize_row [ln 2 * (1 + ln (3 / 2) / ln 3), ln 2 * (1 + ln 2 / ln 3)]
   \<noteq> normalize_row [ln 2 * (1 + ln (1 / 2) / ln 3), ln (2 :: real)]"
proof (rule normalize_row_pair_neq)
  define L where "L = ln (2 :: real)"
  define u where "u = ln (3 / 2 :: real) / ln 3"
  define v where "v = ln (2 :: real) / ln 3"
  have L: "0 < L" by (simp add: L_def)
  have u: "0 < u" by (simp add: u_def)
  have v: "0 < v" by (simp add: v_def)
  have half: "ln (1 / 2 :: real) / ln 3 = - v"
    by (simp add: v_def ln_div)
  have "L * (1 + u) * L - L * (1 + v) * (L * (1 + - v)) = L * L * (u + v * v)"
    by (simp add: algebra_simps)
  moreover have "0 < L * L * (u + v * v)"
    using L u v by (simp add: add_pos_pos)
  ultimately have ne: "L * (1 + u) * L \<noteq> L * (1 + v) * (L * (1 + - v))"
    by linarith
  show "ln 2 * (1 + ln (3 / 2) / ln 3) * ln (2 :: real)
             \<noteq> ln 2 * (1 + ln 2 / ln 3) * (ln 2 * (1 + ln (1 / 2) / ln 3))"
    unfolding half using ne by (simp add: L_def u_def v_def)
  show "0 < ln 2 * (1 + ln 2 / ln (3 :: real))"
    using L v by (simp add: L_def v_def add_pos_pos)
  show "0 < ln (2 :: real)" by simp
qed

lemma corpus_example:
  "fit_vocabulary [''aa bb'', ''aa''] = Inr [''aa'', ''bb'']"
  "count_matrix [''aa bb'', ''aa''] [''aa'', ''bb''] = [[1, 1], [1, 0]]"
  by (simp_all add: fit_vocabulary_def count_matrix_def tokenize_def is_word_char_def Let_def)

text \<open>
  The amended claim at a corpus of two documents, whose count matrix is
  \<open>[[1, 1], [1, 0]]\<close>.
\<close>

theorem log_entropy_formulas_witness:
  "document_term_cooccurrence [''aa bb'', ''aa''] ''log_l2''
     = Inr (Normalizer_l2 (log_entropy_cells [[1, 1], [1, 0]]), [''aa'', ''bb''])
   \<and> dt_matrix_log_l2_myLSA [[1, 1], [1, 0]] = Normalizer_l2 (log_entropy_cells_myLSA [[1, 1], [1, 0]])"
proof -
  have run: "document_term_cooccurrence [''aa bb'', ''aa''] ''log_l2''
               = Inr (Normalizer_l2 (dt_matrix_log [[1, 1], [1, 0]]), [''aa'', ''bb''])"
    by (simp add: document_term_cooccurrence_def corpus_example)
  have r: "rect 2 [[1, 1], [1, 0 :: nat]]" by (simp add: rect_def)
  note inst = log_entropy_formulas [of "[''aa bb'', ''aa'']" 2 "[[1, 1], [1, 0]]"]
  have a: "Normalizer_l2 (dt_matrix_log [[1, 1], [1, 0]]) = Normalizer_l2 (log_entropy_cells [[1, 1], [1, 0]])"
    using inst run by (simp add: corpus_example)
  have b: "dt_matrix_log_l2_myLSA [[1, 1], [1, 0]] = Normalizer_l2 (log_entropy_cells_myLSA [[1, 1], [1, 0]])"
    using inst r by simp
  show ?thesis using run a b by simp
qed

text \<open>
  Claim C4 as stated fails where it says that the two implementations are
  equivalent: on the count matrix \<open>[[1, 1], [1, 0]]\<close> of the corpus
  \<^verbatim>\<open>["aa bb", "aa"]\<close> the two weightings return different matrices.
\<close>

theorem log_entropy_implementations_differ:
  "document_term_cooccurrence [''aa bb'', ''aa''] ''log_l2''
     = Inr (Normalizer_l2 (dt_matrix_log [[1, 1], [1, 0]]), [''aa'', ''bb''])
   \<and> Normalizer_l2 (dt_matrix_log [[1, 1], [1, 0]]) \<noteq> dt_matrix_log_l2_myLSA [[1, 1], [1, 0]]"
proof -
  have run: "document_term_cooccurrence [''aa bb'', ''aa''] ''log_l2''
               = Inr (Normalizer_l2 (dt_matrix_log [[1, 1], [1, 0]]), [''aa'', ''bb''])"
    by (simp add: document_term_cooccurrence_def corpus_example)
  have "Normalizer_l2 (dt_matrix_log [[1, 1], [1, 0]]) \<noteq> dt_matrix_log_l2_myLSA [[1, 1], [1, 0]]"
    unfolding dt_matrix_log_l2_myLSA_def Normalizer_l2_def dt_matrix_log_example
      dt_matrix_log_myLSA_example
    using log_entropy_rows_differ by simp
  then show ?thesis using run by simp
qed

lemma l2_norm_zero_iff: "l2_norm v = 0 \<longleftrightarrow> (\<forall>x \<in> set v. x = 0)"
proof -
  have "sum_list (map (\<lambda>x. x * x) v) = 0 \<longleftrightarrow> (\<forall>y \<in> set (map (\<lambda>x. x * x) v). y = 0)"
    by (rule sum_list_nonneg_eq_0_iff) auto
  then show ?thesis by (auto simp: l2_norm_def)
qed

lemma normalize_row_all_zero: "\<forall>x \<in> set v. x = 0 \<Longrightarrow> normalize_row v = v"
  using l2_norm_zero_iff [of v] by (simp add: normalize_row_def)

lemma normalize_row_unit: "\<exists>x \<in> set v. x \<noteq> 0 \<Longrightarrow> l2_norm (normalize_row v) = 1"
  using l2_norm_zero_iff [of v] by (intro l2_norm_normalize_row) auto

lemma weighted_rows_norm:
  assumes W: "W = map (\<lambda>row. map (\<lambda>j. real (row ! j) * w row j) [0 ..< m]) C"
    and pos: "\<forall>row \<in> set C. \<forall>j < m. 0 < row ! j \<longrightarrow> 0 < w row j"
    and d: "d < length C"
  shows "(\<forall>j < m. C ! d ! j = 0) \<longrightarrow> Normalizer_l2 W ! d = zeros m"
    and "(\<exists>j < m. C ! d ! j \<noteq> 0) \<longrightarrow> l2_norm (Normalizer_l2 W ! d) = 1"
    and "length (Normalizer_l2 W) = length C"
proof -
  define v where "v = map (\<lambda>j. real (C ! d ! j) * w (C ! d) j) [0 ..< m]"
  have row: "Normalizer_l2 W ! d = normalize_row v"
    using d by (simp add: W Normalizer_l2_def v_def)
  show "(\<forall>j < m. C ! d ! j = 0) \<longrightarrow> Normalizer_l2 W ! d = zeros m"
  proof
    assume z: "\<forall>j < m. C ! d ! j = 0"
    then have "v = zeros m"
      by (intro nth_equalityI) (simp_all add: v_def zeros_def)
    then show "Normalizer_l2 W ! d = zeros m"
      by (simp add: row normalize_row_zeros)
  qed
  show "(\<exists>j < m. C ! d ! j \<noteq> 0) \<longrightarrow> l2_norm (Normalizer_l2 W ! d) = 1"
  proof
    assume "\<exists>j < m. C ! d ! j \<noteq> 0"
    then obtain j where j: "j < m" "C ! d ! j \<noteq> 0" by blast
    have "C ! d \<in> set C" using d by simp
    then have "0 < w (C ! d) j" using pos j by simp
    then have "real (C ! d ! j) * w (C ! d) j \<noteq> 0" using j by simp
    moreover have "real (C ! d ! j) * w (C ! d) j \<in> set v"
      using j(1) by (auto simp: v_def)
    ultimately have "\<exists>x \<in> set v. x \<noteq> 0" by blast
    then show "l2_norm (Normalizer_l2 W ! d) = 1"
      by (simp add: row normalize_row_unit)
  qed
  show "length (Normalizer_l2 W) = length C"
    by (simp add: W Normalizer_l2_def)
qed

lemma to_real_weighted:
  assumes "rect m C"
  shows "to_real C = map (\<lambda>row. map (\<lambda>j. real (row ! j) * 1) [0 ..< m]) C"
  unfolding to_real_def using assms
  by (intro map_cong refl nth_equalityI) (simp_all add: rect_mem)

lemma idf_pos: "0 < idf C j"
proof -
  have "length (filter (\<lambda>row. row ! j \<noteq> 0) C) \<le> length C" by simp
  then have "1 \<le> (1 + real (length C)) / (1 + real (length (filter (\<lambda>row. row ! j \<noteq> 0) C)))"
    by (simp add: field_simps)
  then have "0 \<le> ln ((1 + real (length C)) / (1 + real (length (filter (\<lambda>row. row ! j \<noteq> 0) C))))"
    by simp
  then show ?thesis unfolding idf_def by linarith
qed

lemma dt_matrix_tfidf_weighted:
  assumes "rect m C" and "C \<noteq> []"
  shows "dt_matrix_tfidf C = map (\<lambda>row. map (\<lambda>j. real (row ! j) * idf C j) [0 ..< m]) C"
proof -
  have nc: "ncols (to_real C) = m"
    using ncols_rect [OF rect_to_real [OF assms(1)]] assms(2) by (simp add: to_real_def)
  have df: "length (filter (\<lambda>r. r ! j \<noteq> 0) (to_real C)) = length (filter (\<lambda>row. row ! j \<noteq> 0) C)"
    if "j < m" for j
  proof -
    have "filter (\<lambda>r. r ! j \<noteq> 0) (map (map real) C) = map (map real) (filter (\<lambda>row. row ! j \<noteq> 0) C)"
      unfolding filter_map using assms(1) that
      by (intro arg_cong [where f = "map (map real)"] filter_cong refl) (simp add: rect_mem)
    then show ?thesis by (simp add: to_real_def)
  qed
  define v where "v = map (idf C) [0 ..< m]"
  have len: "length (to_real C) = length C" by (simp add: to_real_def)
  have elem: "ln ((1 + real (length (to_real C)))
                  / (1 + real (length (filter (\<lambda>r. r ! j \<noteq> 0) (to_real C))))) + 1 = idf C j"
    if "j < m" for j
    unfolding df [OF that] idf_def len ..
  have idfs: "map (\<lambda>k. ln ((1 + real (length (to_real C))) / (1 + real k)) + 1)
                (map (\<lambda>j. length (filter (\<lambda>r. r ! j \<noteq> 0) (to_real C))) [0 ..< ncols (to_real C)]) = v"
    unfolding nc v_def map_map comp_def
    by (rule map_cong [OF refl]) (simp only: elem atLeastLessThan_iff set_upt)
  have "dt_matrix_tfidf C = map (\<lambda>r. map2 (*) r v) (to_real C)"
    unfolding dt_matrix_tfidf_def Let_def idfs ..
  also have "\<dots> = map (\<lambda>row. map (\<lambda>j. real (row ! j) * idf C j) [0 ..< m]) C"
    unfolding to_real_def using assms(1)
    by (simp add: map2_same_length rect_mem v_def)
  finally show ?thesis .
qed

lemma column_total_nonneg: "0 \<le> column_total C t"
  unfolding column_total_def by (rule sum_list_nonneg) auto

lemma global_weight_pos: "0 < global_weight C t"
proof -
  have "0 \<le> (real (row ! t) / column_total C t) * ln (real (row ! t) / column_total C t + 1)" for row
    using column_total_nonneg [of C t] by simp
  then have "0 \<le> sum_list (map (\<lambda>row. (real (row ! t) / column_total C t)
                                * ln (real (row ! t) / column_total C t + 1)) C)"
    by (intro sum_list_nonneg) auto
  moreover have "0 \<le> ln (real (length C) + 1)" by simp
  ultimately show ?thesis
    by (simp add: global_weight_def add_pos_nonneg)
qed

lemma log_entropy_cells_weighted:
  assumes "rect m C"
  shows "log_entropy_cells C =
           map (\<lambda>row. map (\<lambda>j. real (row ! j) * (ln (real (row ! j) + 1) * global_weight C j)) [0 ..< m]) C"
  unfolding map_rows_index [OF assms]
  by (simp add: log_entropy_cells_def log_entropy_cell_def mult.assoc)

lemma count_row_zero_iff:
  assumes voc: "fit_vocabulary corpus = Inr terms" and d: "d < length corpus"
  shows "(\<forall>j < length terms. count_matrix corpus terms ! d ! j = 0) \<longleftrightarrow> tokenize (corpus ! d) = []"
proof
  assume z: "\<forall>j < length terms. count_matrix corpus terms ! d ! j = 0"
  show "tokenize (corpus ! d) = []"
  proof (rule ccontr)
    assume "tokenize (corpus ! d) \<noteq> []"
    then obtain w where w: "w \<in> set (tokenize (corpus ! d))"
      by (cases "tokenize (corpus ! d)") auto
    have "w \<in> set terms"
      using w d fit_vocabulary_Inr(1) [OF voc] by auto
    then obtain j where j: "j < length terms" "terms ! j = w"
      by (auto simp: in_set_conv_nth)
    have "count_matrix corpus terms ! d ! j = count_list (tokenize (corpus ! d)) w"
      using d j by (simp add: count_matrix_def)
    then have "count_list (tokenize (corpus ! d)) w = 0" using z j by simp
    then show False using w by (simp add: count_list_0_iff)
  qed
next
  assume "tokenize (corpus ! d) = []"
  then show "\<forall>j < length terms. count_matrix corpus terms ! d ! j = 0"
    using d by (simp add: count_matrix_def)
qed

text \<open>
  Claim C5.  For every corpus on which \<^verbatim>\<open>document_term_cooccurrence\<close> returns
  under the modes \<^verbatim>\<open>'l2'\<close>, \<^verbatim>\<open>'tfidf_l2'\<close> and \<^verbatim>\<open>'log_l2'\<close>, the matrix has one row
  per document; the row of a document with no recognised term is all-zero, and
  every other row has L2 norm 1 (exactly, on the reals).
\<close>

theorem l2_rows_unit_norm:
  assumes run: "document_term_cooccurrence corpus processing = Inr (M, terms)"
    and mode: "processing = ''l2'' \<or> processing = ''tfidf_l2'' \<or> processing = ''log_l2''"
    and d: "d < length corpus"
  shows "length M = length corpus
       \<and> (tokenize (corpus ! d) = [] \<longrightarrow> M ! d = zeros (length terms))
       \<and> (tokenize (corpus ! d) \<noteq> [] \<longrightarrow> l2_norm (M ! d) = 1)"
proof -
  let ?C = "count_matrix corpus terms"
  let ?m = "length terms"
  have voc: "fit_vocabulary corpus = Inr terms" by (rule dtc_cases(1) [OF run])
  have rc: "rect ?m ?C" by (rule rect_count_matrix)
  have ne: "?C \<noteq> []" using fit_vocabulary_Inr(3) [OF voc] by (simp add: count_matrix_def)
  have dC: "d < length ?C" using d by (simp add: length_count_matrix)
  have "\<exists>w. M = Normalizer_l2 (map (\<lambda>row. map (\<lambda>j. real (row ! j) * w row j) [0 ..< ?m]) ?C)
           \<and> (\<forall>row \<in> set ?C. \<forall>j < ?m. 0 < row ! j \<longrightarrow> 0 < w row j)"
  proof -
    consider "processing = ''l2''" | "processing = ''tfidf_l2''" | "processing = ''log_l2''"
      using mode by blast
    then show ?thesis
    proof cases
      case 1
      have "M = Normalizer_l2 (map (\<lambda>row. map (\<lambda>j. real (row ! j) * (\<lambda>r k. 1) row j) [0 ..< ?m]) ?C)"
        using dtc_cases(3) [OF run 1] to_real_weighted [OF rc] by simp
      then show ?thesis by (intro exI [of _ "\<lambda>r k. 1"]) simp
    next
      case 2
      have "M = Normalizer_l2 (map (\<lambda>row. map (\<lambda>j. real (row ! j) * (\<lambda>r k. idf ?C k) row j) [0 ..< ?m]) ?C)"
        using dtc_cases(4) [OF run 2] dt_matrix_tfidf_weighted [OF rc ne] by simp
      then show ?thesis by (intro exI [of _ "\<lambda>r k. idf ?C k"]) (simp add: idf_pos)
    next
      case 3
      have "M = Normalizer_l2 (map (\<lambda>row. map (\<lambda>j. real (row ! j)
                  * (\<lambda>r k. ln (real (r ! k) + 1) * global_weight ?C k) row j) [0 ..< ?m]) ?C)"
        using dtc_cases(5) [OF run 3] dt_matrix_log_cells [OF rc ne] log_entropy_cells_weighted [OF rc]
        by simp
      then show ?thesis
        by (intro exI [of _ "\<lambda>r k. ln (real (r ! k) + 1) * global_weight ?C k"])
           (simp add: global_weight_pos)
    qed
  qed
  then obtain w where M: "M = Normalizer_l2 (map (\<lambda>row. map (\<lambda>j. real (row ! j) * w row j) [0 ..< ?m]) ?C)"
    and pos: "\<forall>row \<in> set ?C. \<forall>j < ?m. 0 < row ! j \<longrightarrow> 0 < w row j"
    by blast
  note facts = weighted_rows_norm [OF refl pos dC]
  have zero_iff: "(\<forall>j < ?m. ?C ! d ! j = 0) \<longleftrightarrow> tokenize (corpus ! d) = []"
    by (rule count_row_zero_iff [OF voc d])
  have a: "length M = length corpus"
    using facts(3) by (simp add: M length_count_matrix)
  have b: "tokenize (corpus ! d) = [] \<longrightarrow> M ! d = zeros ?m"
    using facts(1) zero_iff M by blast
  have c: "tokenize (corpus ! d) \<noteq> [] \<longrightarrow> l2_norm (M ! d) = 1"
    using facts(2) zero_iff M by blast
  show ?thesis using a b c by blast
qed

text \<open>
  The claim at a corpus whose second document has no token of two characters.
\<close>

theorem l2_rows_unit_norm_witness:
  "\<exists>M terms. document_term_cooccurrence [''aa bb'', ''c''] ''tfidf_l2'' = Inr (M, terms)
      \<and> length M = 2 \<and> l2_norm (M ! 0) = 1 \<and> M ! 1 = zeros (length terms)"
proof -
  let ?corpus = "[''aa bb'', ''c'']"
  have voc: "fit_vocabulary ?corpus = Inr [''aa'', ''bb'']"
    by (simp add: fit_vocabulary_def tokenize_def is_word_char_def Let_def)
  obtain M where run: "document_term_cooccurrence ?corpus ''tfidf_l2'' = Inr (M, [''aa'', ''bb''])"
    by (simp add: document_term_cooccurrence_def voc Let_def)
  have t0: "tokenize (?corpus ! 0) \<noteq> []" and t1: "tokenize (?corpus ! 1) = []"
    by (simp_all add: tokenize_def is_word_char_def)
  have r0: "length M = length ?corpus \<and> l2_norm (M ! 0) = 1"
    using l2_rows_unit_norm [OF run, of 0] t0 by simp
  have r1: "M ! 1 = zeros (length [''aa'', ''bb''])"
    using l2_rows_unit_norm [OF run, of 1] t1 by simp
  show ?thesis
    using run r0 r1 by simp
qed

text \<open>
  Tokens beyond ASCII: in \<^verbatim>\<open>'caf\xe9 au'\<close> the accented letter is a word
  character and the tokens are \<^verbatim>\<open>'caf\xe9'\<close> and \<^verbatim>\<open>'au'\<close>; the multiplication sign
  separates tokens.
\<close>

lemma tokenize_latin1:
  "tokenize [CHR ''c'', CHR ''a'', CHR ''f'', CHR 0xE9, CHR '' '', CHR ''a'', CHR ''u'']
     = [[CHR ''c'', CHR ''a'', CHR ''f'', CHR 0xE9], ''au'']
   \<and> tokenize [CHR ''a'', CHR ''b'', CHR 0xD7, CHR ''c'', CHR ''d''] = [''ab'', ''cd'']"
  by (simp add: tokenize_def is_word_char_def)

lemma word_char_not_space: "is_word_char c \<Longrightarrow> \<not> is_space c"
  by (auto simp: is_word_char_def is_space_def)

lemma word_runs_split:
  "\<forall>c \<in> set doc. is_word_char c \<or> is_space c \<Longrightarrow> word_runs cur doc = split_from cur doc"
proof (induction doc arbitrary: cur)
  case Nil
  then show ?case by simp
next
  case (Cons c cs)
  then show ?case
    using word_char_not_space [of c] by auto
qed

lemma tokenize_split:
  assumes "\<forall>c \<in> set doc. is_word_char c \<or> is_space c"
    and "\<forall>w \<in> set (py_split doc). 2 \<le> length w"
  shows "tokenize doc = py_split doc"
proof -
  have "word_runs [] doc = py_split doc"
    using word_runs_split [OF assms(1)] by (simp add: py_split_def)
  then show ?thesis using assms(2) by (simp add: tokenize_def)
qed

lemma word_runs_chars:
  "\<forall>c \<in> set cur. is_word_char c \<Longrightarrow> w \<in> set (word_runs cur doc) \<Longrightarrow> \<forall>c \<in> set w. is_word_char c"
proof (induction doc arbitrary: cur)
  case Nil
  then show ?case by (auto split: if_splits)
next
  case (Cons c cs)
  show ?case
  proof (cases "is_word_char c")
    case True
    then have "\<forall>a \<in> set (cur @ [c]). is_word_char a" using Cons.prems(1) by simp
    moreover have "w \<in> set (word_runs (cur @ [c]) cs)" using Cons.prems(2) True by simp
    ultimately show ?thesis by (rule Cons.IH)
  next
    case False
    then have "w = cur \<or> w \<in> set (word_runs [] cs)"
      using Cons.prems(2) by (auto split: if_splits)
    then show ?thesis
    proof
      assume "w = cur"
      then show ?thesis using Cons.prems(1) by simp
    next
      assume "w \<in> set (word_runs [] cs)"
      then show ?thesis using Cons.IH [of "[]"] by simp
    qed
  qed
qed

lemma tokenize_chars:
  assumes "w \<in> set (tokenize doc)"
  shows "2 \<le> length w \<and> (\<forall>c \<in> set w. is_word_char c)"
  using assms word_runs_chars [of "[]" w doc] by (simp add: tokenize_def)

text \<open>
  Claim C3 (as amended).  The vocabulary of \<^verbatim>\<open>document_term_cooccurrence\<close> is
  the sorted list of the distinct tokens that the vectorizer extracts (maximal
  runs of two or more word characters, taken verbatim: no lower-casing, no
  stop-word removal), so every term has at least two characters, all of them
  word characters, and the \<^verbatim>\<open>'count'\<close> matrix holds the tokens' numbers of
  occurrences.  For a corpus whose documents consist of word characters and
  whitespace, with every space-separated token at least two characters long
  and at least one token in it, the call returns, the vocabulary is exactly
  the set of the space-separated tokens, and the matrix counts them.
\<close>

theorem vocabulary_is_token_set:
  "(\<forall>M terms. document_term_cooccurrence corpus ''count'' = Inr (M, terms) \<longrightarrow>
       sorted terms \<and> distinct terms
     \<and> set terms = (\<Union>doc \<in> set corpus. set (tokenize doc))
     \<and> (\<forall>t \<in> set terms. 2 \<le> length t \<and> (\<forall>c \<in> set t. is_word_char c))
     \<and> M = map (\<lambda>doc. map (\<lambda>t. real (count_list (tokenize doc) t)) terms) corpus)
   \<and> ((\<forall>doc \<in> set corpus. (\<forall>c \<in> set doc. is_word_char c \<or> is_space c)
                           \<and> (\<forall>w \<in> set (py_split doc). 2 \<le> length w))
        \<and> (\<exists>doc \<in> set corpus. py_split doc \<noteq> [])
      \<longrightarrow> (\<exists>M terms. document_term_cooccurrence corpus ''count'' = Inr (M, terms)
             \<and> set terms = (\<Union>doc \<in> set corpus. set (py_split doc))
             \<and> M = map (\<lambda>doc. map (\<lambda>t. real (count_list (py_split doc) t)) terms) corpus))"
proof (intro conjI allI impI)
  fix M terms
  assume run: "document_term_cooccurrence corpus ''count'' = Inr (M, terms)"
  have voc: "fit_vocabulary corpus = Inr terms" by (rule dtc_cases(1) [OF run])
  have terms: "terms = sort (remdups (concat (map tokenize corpus)))"
    by (rule fit_vocabulary_Inr(1) [OF voc])
  have M: "M = to_real (count_matrix corpus terms)"
    by (rule dtc_cases(2) [OF run refl])
  show "sorted terms" by (simp add: terms)
  show "distinct terms" by (simp add: terms)
  show "set terms = (\<Union>doc \<in> set corpus. set (tokenize doc))" by (simp add: terms)
  show "\<forall>t \<in> set terms. 2 \<le> length t \<and> (\<forall>c \<in> set t. is_word_char c)"
    using tokenize_chars by (auto simp: terms)
  show "M = map (\<lambda>doc. map (\<lambda>t. real (count_list (tokenize doc) t)) terms) corpus"
    by (simp add: M to_real_def count_matrix_def comp_def)
next
  assume h: "(\<forall>doc \<in> set corpus. (\<forall>c \<in> set doc. is_word_char c \<or> is_space c)
                           \<and> (\<forall>w \<in> set (py_split doc). 2 \<le> length w))
        \<and> (\<exists>doc \<in> set corpus. py_split doc \<noteq> [])"
  have tok: "tokenize doc = py_split doc" if "doc \<in> set corpus" for doc
    using h that by (intro tokenize_split) auto
  define terms where "terms = sort (remdups (concat (map tokenize corpus)))"
  obtain doc where doc: "doc \<in> set corpus" "py_split doc \<noteq> []" using h by blast
  then obtain w where "w \<in> set (tokenize doc)"
    using tok [OF doc(1)] by (cases "py_split doc") auto
  then have "w \<in> set terms" using doc(1) by (auto simp: terms_def)
  then have ne: "terms \<noteq> []" by auto
  have voc: "fit_vocabulary corpus = Inr terms"
    using ne by (simp add: fit_vocabulary_def Let_def terms_def)
  have run: "document_term_cooccurrence corpus ''count'' = Inr (to_real (count_matrix corpus terms), terms)"
    by (simp add: document_term_cooccurrence_def voc Let_def)
  have set_terms: "set terms = (\<Union>doc \<in> set corpus. set (py_split doc))"
    using tok by (simp add: terms_def)
  have "to_real (count_matrix corpus terms)
          = map (\<lambda>doc. map (\<lambda>t. real (count_list (tokenize doc) t)) terms) corpus"
    by (simp add: to_real_def count_matrix_def comp_def)
  also have "\<dots> = map (\<lambda>doc. map (\<lambda>t. real (count_list (py_split doc) t)) terms) corpus"
    by (intro map_cong refl) (simp add: tok)
  finally have M: "to_real (count_matrix corpus terms)
          = map (\<lambda>doc. map (\<lambda>t. real (count_list (py_split doc) t)) terms) corpus" .
  show "\<exists>M terms. document_term_cooccurrence corpus ''count'' = Inr (M, terms)
             \<and> set terms = (\<Union>doc \<in> set corpus. set (py_split doc))
             \<and> M = map (\<lambda>doc. map (\<lambda>t. real (count_list (py_split doc) t)) terms) corpus"
    using run set_terms M by blast
qed

lemma count_example:
  "document_term_cooccurrence [''aa bb'', ''bb cc''] ''count''
     = Inr ([[1, 1, 0], [0, 1, 1]], [''aa'', ''bb'', ''cc''])"
  by (simp add: document_term_cooccurrence_def fit_vocabulary_def tokenize_def is_word_char_def
      count_matrix_def to_real_def Let_def)

text \<open>
  The amended claim at the corpus \<^verbatim>\<open>["aa bb", "bb cc"]\<close>: vocabulary
  \<open>[aa, bb, cc]\<close> and matrix \<open>[[1, 1, 0], [0, 1, 1]]\<close>.
\<close>

theorem vocabulary_is_token_set_witness:
  "document_term_cooccurrence [''aa bb'', ''bb cc''] ''count''
     = Inr ([[1, 1, 0], [0, 1, 1]], [''aa'', ''bb'', ''cc''])
   \<and> set [''aa'', ''bb'', ''cc''] = (\<Union>doc \<in> set [''aa bb'', ''bb cc'']. set (py_split doc))
   \<and> [[1, 1, 0], [0, 1, 1]]
       = map (\<lambda>doc. map (\<lambda>t. real (count_list (py_split doc) t)) [''aa'', ''bb'', ''cc''])
           [''aa bb'', ''bb cc'']"
proof -
  let ?corpus = "[''aa bb'', ''bb cc'']"
  have hyp: "(\<forall>doc \<in> set ?corpus. (\<forall>c \<in> set doc. is_word_char c \<or> is_space c)
                           \<and> (\<forall>w \<in> set (py_split doc). 2 \<le> length w))
        \<and> (\<exists>doc \<in> set ?corpus. py_split doc \<noteq> [])"
    by (simp add: is_word_char_def is_space_def py_split_def)
  obtain M terms where run: "document_term_cooccurrence ?corpus ''count'' = Inr (M, terms)"
    and st: "set terms = (\<Union>doc \<in> set ?corpus. set (py_split doc))"
    and M: "M = map (\<lambda>doc. map (\<lambda>t. real (count_list (py_split doc) t)) terms) ?corpus"
    using vocabulary_is_token_set [of ?corpus] hyp by blast
  have eq: "M = [[1, 1, 0], [0, 1, 1]]" "terms = [''aa'', ''bb'', ''cc'']"
    using run count_example by simp_all
  show ?thesis
    using run st M unfolding eq by blast
qed

text \<open>
  Claim C3 as stated fails at its own example: the space-separated tokens of
  \<^verbatim>\<open>["a b", "b c"]\<close> have one character each, the vectorizer extracts no token
  from them, and the call raises ValueError (empty vocabulary) instead of
  returning the vocabulary \<open>[a, b, c]\<close>.
\<close>

theorem single_character_tokens_raise:
  "py_split ''a b'' = [''a'', ''b''] \<and> py_split ''b c'' = [''b'', ''c'']
   \<and> document_term_cooccurrence [''a b'', ''b c''] ''count'' = Inl ValueError"
  by (simp add: document_term_cooccurrence_def fit_vocabulary_def tokenize_def is_word_char_def
      py_split_def is_space_def Let_def)

end
